theory Spec2Isabelle
  imports Complex_Main "HOL-Library.AList" "HOL-Library.Multiset"
begin

section \<open>Python values\<close>

text \<open>
  A Python \<open>str\<close> is a sequence of Unicode code points, so a text is a list of natural
  numbers; \<open>u\<close> turns a literal into its code points.  A \<open>Dict[str, Any]\<close> is an
  association list in insertion order, read through \<open>map_of\<close>.
\<close>

type_synonym str = "nat list"

definition u :: "string \<Rightarrow> str" where
  "u s = map of_char s"

datatype pyval =
    PNone
  | PInt int
  | PFloat rat  \<comment> \<open>a finite float, by the number it is\<close>
  | PFloatInf bool  \<comment> \<open>\<open>inf\<close>, and \<open>-inf\<close> when the flag is set\<close>
  | PStr str
  | PList "pyval list"

type_synonym dict = "(str \<times> pyval) list"

datatype error = AttributeError | ValueError | TypeError

definition dict_get :: "dict \<Rightarrow> str \<Rightarrow> pyval \<Rightarrow> pyval" where
  \<comment> \<open>\<open>d.get(k, default)\<close>\<close>
  "dict_get d k dflt = (case map_of d k of None \<Rightarrow> dflt | Some v \<Rightarrow> v)"

fun truthy :: "pyval \<Rightarrow> bool" where
  "truthy PNone = False"
| "truthy (PInt n) = (n \<noteq> 0)"
| "truthy (PFloat x) = (x \<noteq> 0)"
| "truthy (PFloatInf neg) = True"
| "truthy (PStr s) = (s \<noteq> [])"
| "truthy (PList vs) = (vs \<noteq> [])"

definition norm_index :: "int \<Rightarrow> nat \<Rightarrow> nat" where
  \<comment> \<open>how a slice bound is clamped into \<open>0..len\<close>; a negative bound counts from the end\<close>
  "norm_index i n =
     (if i < 0 then (if i + int n < 0 then 0 else nat (i + int n)) else min (nat i) n)"

definition py_slice :: "'a list \<Rightarrow> int option \<Rightarrow> int option \<Rightarrow> 'a list" where
  \<comment> \<open>\<open>xs[lo:hi]\<close>; \<open>None\<close> is an omitted bound\<close>
  "py_slice xs lo hi =
     (let n = length xs;
          a = (case lo of None \<Rightarrow> 0 | Some i \<Rightarrow> norm_index i n);
          b = (case hi of None \<Rightarrow> n | Some j \<Rightarrow> norm_index j n)
      in take (b - a) (drop a xs))"

definition is_space :: "nat \<Rightarrow> bool" where
  \<comment> \<open>the code points for which \<open>str.isspace\<close> holds; also the class \<open>\s\<close>\<close>
  "is_space c \<longleftrightarrow>
     (9 \<le> c \<and> c \<le> 13) \<or> (28 \<le> c \<and> c \<le> 32) \<or> c = 133 \<or> c = 160 \<or> c = 5760 \<or>
     (8192 \<le> c \<and> c \<le> 8202) \<or> c = 8232 \<or> c = 8233 \<or> c = 8239 \<or> c = 8287 \<or> c = 12288"

definition lower_char :: "nat \<Rightarrow> nat" where
  \<comment> \<open>the lower-case partner of a code point of Basic Latin and Latin-1\<close>
  "lower_char c =
     (if (65 \<le> c \<and> c \<le> 90) \<or> (192 \<le> c \<and> c \<le> 222 \<and> c \<noteq> 215) then c + 32 else c)"

definition lower_latin1 :: "str \<Rightarrow> str" where
  \<comment> \<open>\<open>s.lower()\<close> for a string \<open>s\<close> of code points up to U+00FF\<close>
  "lower_latin1 s = map lower_char s"

definition strip :: "str \<Rightarrow> str" where
  \<comment> \<open>\<open>s.strip()\<close>\<close>
  "strip s = rev (dropWhile is_space (rev (dropWhile is_space s)))"

fun split_aux :: "str \<Rightarrow> str \<Rightarrow> str list" where
  "split_aux cur [] = (if cur = [] then [] else [cur])"
| "split_aux cur (c # cs) =
     (if is_space c then (if cur = [] then split_aux [] cs else cur # split_aux [] cs)
      else split_aux (cur @ [c]) cs)"

definition str_split :: "str \<Rightarrow> str list" where
  \<comment> \<open>\<open>s.split()\<close>: the maximal runs of non-whitespace\<close>
  "str_split s = split_aux [] s"

fun starts_with :: "str \<Rightarrow> str \<Rightarrow> bool" where
  "starts_with [] t = True"
| "starts_with (a # w) [] = False"
| "starts_with (a # w) (b # t) = (a = b \<and> starts_with w t)"

fun contains :: "str \<Rightarrow> str \<Rightarrow> bool" where
  \<comment> \<open>\<open>w in t\<close> on strings: \<open>w\<close> occurs in \<open>t\<close> as a contiguous piece\<close>
  "contains w [] = (w = [])"
| "contains w (b # t) = (starts_with w (b # t) \<or> contains w t)"

section \<open>RAGEngine.semantic\_search\<close>

definition k_text_content :: str where
  "k_text_content = u ''text_content''"

definition k_relevance_score :: str where
  "k_relevance_score = u ''relevance_score''"

text \<open>
  \<open>str.lower\<close> is given by the Unicode database of the interpreter (it maps code points far
  beyond Latin-1, some to two code points, and the capital sigma by its position in the word),
  so the search takes it as the parameter \<open>str_lower\<close> and what is proved of it holds
  for every such function.
\<close>

definition chunk_text_lower :: "(str \<Rightarrow> str) \<Rightarrow> dict \<Rightarrow> error + str" where
  \<comment> \<open>\<open>chunk.get('text_content', '').lower()\<close>; a value that is no string has no \<open>lower\<close>\<close>
  "chunk_text_lower str_lower chunk =
     (case dict_get chunk k_text_content (PStr []) of
        PStr s \<Rightarrow> Inr (str_lower s)
      | _ \<Rightarrow> Inl AttributeError)"

definition query_words :: "(str \<Rightarrow> str) \<Rightarrow> str \<Rightarrow> str list" where
  \<comment> \<open>\<open>set(query.lower().split())\<close>, each word once\<close>
  "query_words str_lower query = remdups (str_split (str_lower query))"

definition word_score :: "str list \<Rightarrow> str \<Rightarrow> nat" where
  \<comment> \<open>\<open>sum(1 for word in query_words if word in text)\<close>\<close>
  "word_score qw text = length (filter (\<lambda>word. contains word text) qw)"

definition chunk_score :: "(str \<Rightarrow> str) \<Rightarrow> str list \<Rightarrow> dict \<Rightarrow> error + nat" where
  \<comment> \<open>the two statements that open the loop body: \<open>text\<close>, then \<open>score\<close>\<close>
  "chunk_score str_lower qw chunk =
     (case chunk_text_lower str_lower chunk of
        Inl e \<Rightarrow> Inl e
      | Inr text \<Rightarrow> Inr (word_score qw text))"

definition with_score :: "nat \<Rightarrow> dict \<Rightarrow> dict" where
  \<comment> \<open>\<open>{**chunk, 'relevance_score': score}\<close>\<close>
  "with_score score chunk = AList.update k_relevance_score (PInt (int score)) chunk"

fun score_chunks :: "(str \<Rightarrow> str) \<Rightarrow> str list \<Rightarrow> dict list \<Rightarrow> error + dict list" where
  "score_chunks str_lower qw [] = Inr []"
| "score_chunks str_lower qw (chunk # rest) =
     (case chunk_score str_lower qw chunk of
        Inl e \<Rightarrow> Inl e
      | Inr score \<Rightarrow>
          (case score_chunks str_lower qw rest of
             Inl e \<Rightarrow> Inl e
           | Inr scored \<Rightarrow>
               Inr (if 0 < score then with_score score chunk # scored else scored)))"

definition relevance :: "dict \<Rightarrow> int" where
  \<comment> \<open>the sort key \<open>x['relevance_score']\<close>; every scored record holds an integer there\<close>
  "relevance x = (case map_of x k_relevance_score of Some (PInt n) \<Rightarrow> n | _ \<Rightarrow> 0)"

definition sort_desc :: "dict list \<Rightarrow> dict list" where
  \<comment> \<open>\<open>list.sort(key=..., reverse=True)\<close>: stable, largest key first\<close>
  "sort_desc xs = sort_key (\<lambda>x. - relevance x) xs"

definition semantic_search ::
  "(str \<Rightarrow> str) \<Rightarrow> str \<Rightarrow> dict list \<Rightarrow> int \<Rightarrow> error + dict list" where
  "semantic_search str_lower query chunks top_k =
     (case score_chunks str_lower (query_words str_lower query) chunks of
        Inl e \<Rightarrow> Inl e
      | Inr scored_chunks \<Rightarrow> Inr (py_slice (sort_desc scored_chunks) None (Some top_k)))"

section \<open>RiskAuditEngine.calculate\_risk\_score\<close>

definition k_severity :: str where
  "k_severity = u ''severity''"

fun hashable :: "pyval \<Rightarrow> bool" where
  \<comment> \<open>a list has no hash, so it cannot be looked up in a dict\<close>
  "hashable (PList vs) = False"
| "hashable v = True"

definition severity_weights :: "pyval \<Rightarrow> error + int" where
  \<comment> \<open>\<open>severity_weights.get(s, 5)\<close>\<close>
  "severity_weights s =
     (if \<not> hashable s then Inl TypeError
      else if s = PStr (u ''high'') then Inr 30
      else if s = PStr (u ''medium'') then Inr 15
      else if s = PStr (u ''low'') then Inr 5
      else Inr 5)"

definition finding_weight :: "dict \<Rightarrow> error + int" where
  \<comment> \<open>\<open>severity_weights.get(f.get('severity', 'low'), 5)\<close>\<close>
  "finding_weight f = severity_weights (dict_get f k_severity (PStr (u ''low'')))"

fun sum_weights :: "dict list \<Rightarrow> error + int" where
  \<comment> \<open>\<open>sum(... for f in findings)\<close>; the first lookup that raises ends it\<close>
  "sum_weights [] = Inr 0"
| "sum_weights (f # fs) =
     (case finding_weight f of
        Inl e \<Rightarrow> Inl e
      | Inr w \<Rightarrow> (case sum_weights fs of Inl e \<Rightarrow> Inl e | Inr others \<Rightarrow> Inr (w + others)))"

definition calculate_risk_score :: "dict list \<Rightarrow> error + int" where
  \<comment> \<open>the score is a float in the source; every value it takes is a whole number\<close>
  "calculate_risk_score findings =
     (if findings = [] then Inr 0
      else case sum_weights findings of
             Inl e \<Rightarrow> Inl e
           | Inr total_score \<Rightarrow> Inr (min total_score 100))"

section \<open>Regular expressions\<close>

text \<open>
  The patterns of the program are values of \<open>re\<close>, and \<open>rmatch\<close> is a backtracking
  matcher in continuation-passing style with the priorities of Python's \<open>re\<close> module:
  the left alternative first, a greedy repetition tries one more round before it stops, a
  lazy one stops before it tries one more round.  A continuation receives the position reached
  and the span of capture group 1 (no pattern of the program has a second group).  The flags
  are \<open>ic\<close> for \<open>IGNORECASE\<close> and \<open>ml\<close> for \<open>MULTILINE\<close>.

  The character tables are those of CPython 3.11 (Unicode 14.0).  Under \<open>IGNORECASE\<close> a
  literal up to U+00FF, or the euro sign, matches the code points that \<open>sre_fold\<close> sends to
  the same place:
  the two cases of a letter and, for \<open>i\<close>, \<open>k\<close>, \<open>s\<close> and the letters U+00B5, U+00DF, U+00E5
  and U+00FF, the few code points beyond Latin-1 that the module treats as their equals.  A range
  is matched under \<open>IGNORECASE\<close> as the module does for ranges inside Basic Latin, which
  all ranges of the program are.  \<open>\d\<close> is the class of the decimal digits of all scripts,
  ten code points from each of the zeros in \<open>digit_zeros\<close>.  A repetition is matched as
  the module does when its body cannot match the empty string, which holds for every repetition
  in the patterns of the program.  Every round of a repetition beyond the required ones must
  move forward in the text, so the rounds are bounded by the fuel that \<open>rmatch\<close> hands to
  \<open>rep_loop\<close>, and the matcher is a total function.
\<close>

datatype citem = Ch nat | Rng nat nat | Digit | Space

datatype re =
    Eps
  | Chr nat
  | Dot
  | Cls bool "citem list"
  | Eol
  | Seq re re
  | Alt re re
  | Rep nat "nat option" bool re
  | Grp re

type_synonym cap = "(nat \<times> nat) option"
type_synonym 'a cont = "nat \<Rightarrow> cap \<Rightarrow> 'a option"

definition sre_fold :: "nat \<Rightarrow> nat" where
  "sre_fold c =
     (if (65 \<le> c \<and> c \<le> 90) \<or> (192 \<le> c \<and> c \<le> 222 \<and> c \<noteq> 215) then c + 32
      else if c = 304 \<or> c = 305 then 105
      else if c = 383 then 115
      else if c = 8490 then 107
      else if c = 8491 then 229
      else if c = 924 \<or> c = 956 then 181
      else if c = 7838 then 223
      else if c = 376 then 255
      else c)"

definition chr_eq :: "bool \<Rightarrow> nat \<Rightarrow> nat \<Rightarrow> bool" where
  "chr_eq ic a c = (if ic then sre_fold c = sre_fold a else c = a)"

definition in_range :: "bool \<Rightarrow> nat \<Rightarrow> nat \<Rightarrow> nat \<Rightarrow> bool" where
  "in_range ic a b c =
     (if ic then (a \<le> sre_fold c \<and> sre_fold c \<le> b) \<or>
                 (97 \<le> sre_fold c \<and> sre_fold c \<le> 122 \<and>
                  a \<le> sre_fold c - 32 \<and> sre_fold c - 32 \<le> b)
      else a \<le> c \<and> c \<le> b)"

definition digit_zeros :: "nat list" where
  \<comment> \<open>the code points of the digit zero in the scripts that have decimal digits\<close>
  "digit_zeros =
     [48, 1632, 1776, 1984, 2406, 2534, 2662, 2790, 2918, 3046, 3174, 3302, 3430, 3558, 3664,
      3792, 3872, 4160, 4240, 6112, 6160, 6470, 6608, 6784, 6800, 6992, 7088, 7232, 7248, 42528,
      43216, 43264, 43472, 43504, 43600, 44016, 65296, 66720, 68912, 69734, 69872, 69942, 70096,
      70384, 70736, 70864, 71248, 71360, 71472, 71904, 72016, 72784, 73040, 73120, 92768, 92864,
      93008, 120782, 120792, 120802, 120812, 120822, 123200, 123632, 125264, 130032]"

definition digit_value :: "nat \<Rightarrow> nat option" where
  \<comment> \<open>the value of a decimal digit; \<open>None\<close> for every other code point\<close>
  "digit_value c =
     (if c < 128 then (if 48 \<le> c \<and> c \<le> 57 then Some (c - 48) else None)
      else map_option (\<lambda>z. c - z) (find (\<lambda>z. z \<le> c \<and> c \<le> z + 9) digit_zeros))"

definition is_digit :: "nat \<Rightarrow> bool" where
  "is_digit c = (digit_value c \<noteq> None)"

fun item_match :: "bool \<Rightarrow> citem \<Rightarrow> nat \<Rightarrow> bool" where
  "item_match ic (Ch a) c = chr_eq ic a c"
| "item_match ic (Rng a b) c = in_range ic a b c"
| "item_match ic Digit c = is_digit c"
| "item_match ic Space c = is_space c"

fun rep_loop ::
  "('a cont \<Rightarrow> 'a cont) \<Rightarrow> bool \<Rightarrow> nat \<Rightarrow> nat \<Rightarrow> nat option \<Rightarrow> 'a cont \<Rightarrow> 'a cont" where
  "rep_loop step greedy fuel mn mx k i c =
     (if fuel = 0 then (if mn = 0 then k i c else None)
      else if 0 < mn then
        step (\<lambda>j c'. rep_loop step greedy (fuel - 1) (mn - 1) (map_option (\<lambda>n. n - 1) mx) k j c') i c
      else if mx = Some 0 then k i c
      else if greedy then
        (case step (\<lambda>j c'. if i < j
                     then rep_loop step greedy (fuel - 1) 0 (map_option (\<lambda>n. n - 1) mx) k j c'
                     else None) i c of
           Some x \<Rightarrow> Some x
         | None \<Rightarrow> k i c)
      else
        (case k i c of
           Some x \<Rightarrow> Some x
         | None \<Rightarrow>
             step (\<lambda>j c'. if i < j
                     then rep_loop step greedy (fuel - 1) 0 (map_option (\<lambda>n. n - 1) mx) k j c'
                     else None) i c))"

declare rep_loop.simps [simp del]

primrec rmatch :: "str \<Rightarrow> bool \<Rightarrow> bool \<Rightarrow> re \<Rightarrow> 'a cont \<Rightarrow> 'a cont" where
  "rmatch t ic ml Eps = (\<lambda>k i c. k i c)"
| "rmatch t ic ml (Chr a) =
     (\<lambda>k i c. if i < length t \<and> chr_eq ic a (t ! i) then k (Suc i) c else None)"
| "rmatch t ic ml Dot = (\<lambda>k i c. if i < length t \<and> t ! i \<noteq> 10 then k (Suc i) c else None)"
| "rmatch t ic ml (Cls neg items) =
     (\<lambda>k i c. if i < length t \<and> (list_ex (\<lambda>it. item_match ic it (t ! i)) items \<noteq> neg)
              then k (Suc i) c else None)"
| "rmatch t ic ml Eol =
     (\<lambda>k i c. if i = length t \<or> (ml \<and> i < length t \<and> t ! i = 10) \<or>
                 (Suc i = length t \<and> t ! i = 10)
              then k i c else None)"
| "rmatch t ic ml (Seq r1 r2) = (\<lambda>k. rmatch t ic ml r1 (rmatch t ic ml r2 k))"
| "rmatch t ic ml (Alt r1 r2) =
     (\<lambda>k i c. case rmatch t ic ml r1 k i c of Some x \<Rightarrow> Some x | None \<Rightarrow> rmatch t ic ml r2 k i c)"
| "rmatch t ic ml (Rep mn mx greedy r) =
     (\<lambda>k i c. rep_loop (rmatch t ic ml r) greedy (Suc (mn + (length t - i))) mn mx k i c)"
| "rmatch t ic ml (Grp r) = (\<lambda>k i c. rmatch t ic ml r (\<lambda>j c'. k j (Some (i, j))) i c)"

type_synonym rmatch_result = "nat \<times> nat \<times> cap"

fun scan :: "(nat \<Rightarrow> 'a option) \<Rightarrow> nat \<Rightarrow> nat \<Rightarrow> 'a option" where
  "scan f i cnt =
     (if cnt = 0 then None
      else case f i of Some x \<Rightarrow> Some x | None \<Rightarrow> scan f (Suc i) (cnt - 1))"

declare scan.simps [simp del]

definition re_search_adv ::
  "str \<Rightarrow> bool \<Rightarrow> bool \<Rightarrow> re \<Rightarrow> nat \<Rightarrow> bool \<Rightarrow> rmatch_result option" where
  \<comment> \<open>the leftmost match that starts at \<open>pos\<close> or later; with \<open>must_advance\<close> an empty
      match at \<open>pos\<close> itself does not count\<close>
  "re_search_adv t ic ml r pos must_advance =
     scan (\<lambda>i. rmatch t ic ml r
                 (\<lambda>j c. if must_advance \<and> i = pos \<and> j = i then None else Some (i, j, c)) i None)
       pos (Suc (length t) - pos)"

definition re_search :: "str \<Rightarrow> bool \<Rightarrow> bool \<Rightarrow> re \<Rightarrow> rmatch_result option" where
  \<comment> \<open>\<open>re.search(pattern, t, flags)\<close>\<close>
  "re_search t ic ml r = re_search_adv t ic ml r 0 False"

fun finditer_from ::
  "str \<Rightarrow> bool \<Rightarrow> bool \<Rightarrow> re \<Rightarrow> nat \<Rightarrow> nat \<Rightarrow> bool \<Rightarrow> rmatch_result list" where
  \<comment> \<open>the next search starts where the last match ended, and behind an empty match it
      must advance; the matches are fewer than \<open>fuel\<close>\<close>
  "finditer_from t ic ml r fuel pos must_advance =
     (if fuel = 0 then []
      else case re_search_adv t ic ml r pos must_advance of
             None \<Rightarrow> []
           | Some (s, e, c) \<Rightarrow> (s, e, c) # finditer_from t ic ml r (fuel - 1) e (e = s))"

declare finditer_from.simps [simp del]

definition finditer :: "str \<Rightarrow> bool \<Rightarrow> bool \<Rightarrow> re \<Rightarrow> rmatch_result list" where
  \<comment> \<open>\<open>list(re.finditer(pattern, t, flags))\<close>\<close>
  "finditer t ic ml r = finditer_from t ic ml r (2 * length t + 3) 0 False"

definition lit :: "string \<Rightarrow> re" where
  "lit s = foldr (\<lambda>ch r. Seq (Chr (of_char ch)) r) s Eps"

definition seqs :: "re list \<Rightarrow> re" where
  "seqs rs = foldr Seq rs Eps"

definition alts :: "re list \<Rightarrow> re" where
  "alts rs = foldr Alt (butlast rs) (last rs)"

abbreviation opt :: "re \<Rightarrow> re" where "opt r \<equiv> Rep 0 (Some 1) True r"
abbreviation many :: "re \<Rightarrow> re" where "many r \<equiv> Rep 0 None True r"
abbreviation many1 :: "re \<Rightarrow> re" where "many1 r \<equiv> Rep 1 None True r"
abbreviation lazy_many :: "re \<Rightarrow> re" where "lazy_many r \<equiv> Rep 0 None False r"
abbreviation lazy_many1 :: "re \<Rightarrow> re" where "lazy_many1 r \<equiv> Rep 1 None False r"
abbreviation ws :: re where "ws \<equiv> Cls False [Space]"
abbreviation digit :: re where "digit \<equiv> Cls False [Digit]"

definition group1 :: "str \<Rightarrow> cap \<Rightarrow> str option" where
  \<comment> \<open>\<open>match.group(1)\<close>: \<open>None\<close> when the group took no part in the match\<close>
  "group1 t c = map_option (\<lambda>(a, b). take (b - a) (drop a t)) c"

definition group0 :: "str \<Rightarrow> rmatch_result \<Rightarrow> str" where
  \<comment> \<open>\<open>match.group(0)\<close>\<close>
  "group0 t m = (case m of (s, e, c) \<Rightarrow> take (e - s) (drop s t))"

definition digits_value :: "str \<Rightarrow> nat" where
  \<comment> \<open>the number that a run of decimal digits writes\<close>
  "digits_value s = foldl (\<lambda>a c. 10 * a + the (digit_value c)) 0 s"

fun digit_run :: "bool \<Rightarrow> str \<Rightarrow> bool" where
  \<comment> \<open>digits with single underscores between them; the flag says that the last code point
      read was a digit\<close>
  "digit_run was_digit [] = was_digit"
| "digit_run was_digit (c # cs) =
     (if is_digit c then digit_run True cs
      else if c = 95 \<and> was_digit then digit_run False cs
      else False)"

definition py_int :: "str option \<Rightarrow> error + int" where
  \<comment> \<open>\<open>int(x)\<close> on what a group returns: \<open>None\<close>, or a string, which is read as optional
      whitespace, an optional sign, decimal digits, optional whitespace; more than 4300
      digits are refused (the interpreter's limit on the conversion of strings to integers)\<close>
  "py_int x =
     (case x of
        None \<Rightarrow> Inl TypeError
      | Some s \<Rightarrow>
          (let body = strip s;
               neg = (body \<noteq> [] \<and> hd body = 45);
               ds = (if body \<noteq> [] \<and> (hd body = 45 \<or> hd body = 43) then tl body else body)
           in if digit_run False ds \<and> length (filter (\<lambda>c. c \<noteq> 95) ds) \<le> 4300
              then Inr ((if neg then - 1 else 1) * int (digits_value (filter (\<lambda>c. c \<noteq> 95) ds)))
              else Inl ValueError))"

section \<open>Capture group 1\<close>

text \<open>
  \<open>caps r\<close> says that group 1 lies on every path through \<open>r\<close>, so that it takes part in
  every match.  \<open>passes q step\<close> is the matching property behind it: whenever \<open>step\<close> succeeds
  it has called its continuation, a capture that was set is still set there, and it is set
  there if \<open>q\<close> holds.
\<close>

primrec caps :: "re \<Rightarrow> bool" where
  "caps Eps = False"
| "caps (Chr a) = False"
| "caps Dot = False"
| "caps (Cls neg items) = False"
| "caps Eol = False"
| "caps (Seq r1 r2) = (caps r1 \<or> caps r2)"
| "caps (Alt r1 r2) = (caps r1 \<and> caps r2)"
| "caps (Rep mn mx greedy r) = (0 < mn \<and> caps r)"
| "caps (Grp r) = True"

definition passes :: "bool \<Rightarrow> ('a cont \<Rightarrow> 'a cont) \<Rightarrow> bool" where
  "passes q step \<longleftrightarrow>
     (\<forall>k i c x. step k i c = Some x \<longrightarrow>
        (\<exists>j c'. k j c' = Some x \<and> (c \<noteq> None \<longrightarrow> c' \<noteq> None) \<and> (q \<longrightarrow> c' \<noteq> None)))"

section \<open>PDFProcessor.chunk\_text\<close>

definition boundary_patterns :: "re list" where
  \<comment> \<open>\<open>[r'\.\s', r'\!\s', r'\?\s', r'\n\n']\<close>\<close>
  "boundary_patterns =
     [Seq (Chr 46) ws, Seq (Chr 33) ws, Seq (Chr 63) ws, Seq (Chr 10) (Chr 10)]"

fun last_boundary :: "str \<Rightarrow> re list \<Rightarrow> rmatch_result option" where
  \<comment> \<open>the loop over the patterns: the last match of the first pattern that has one\<close>
  "last_boundary search_text [] = None"
| "last_boundary search_text (pattern # rest) =
     (case finditer search_text False False pattern of
        [] \<Rightarrow> last_boundary search_text rest
      | m # ms \<Rightarrow> Some (last (m # ms)))"

definition chunk_end :: "str \<Rightarrow> int \<Rightarrow> int \<Rightarrow> int" where
  \<comment> \<open>the value of \<open>end\<close> when the chunk is cut\<close>
  "chunk_end text start chunk_size =
     (let end0 = start + chunk_size in
      if end0 < int (length text) then
        (let search_start = max start (end0 - 100);
             search_text = py_slice text (Some search_start) (Some (end0 + 100))
         in case last_boundary search_text boundary_patterns of
              None \<Rightarrow> end0
            | Some (s, e, c) \<Rightarrow> search_start + int e)
      else end0)"

partial_function (option) chunk_loop ::
  "str \<Rightarrow> int \<Rightarrow> int \<Rightarrow> int \<Rightarrow> str list \<Rightarrow> str list option" where
  "chunk_loop text chunk_size chunk_overlap start chunks =
     (if start < int (length text) then
        chunk_loop text chunk_size chunk_overlap
          (chunk_end text start chunk_size - chunk_overlap)
          (if strip (py_slice text (Some start) (Some (chunk_end text start chunk_size))) \<noteq> []
           then chunks @ [strip (py_slice text (Some start) (Some (chunk_end text start chunk_size)))]
           else chunks)
      else Some chunks)"

definition chunk_text :: "str \<Rightarrow> int \<Rightarrow> int \<Rightarrow> str list option" where
  \<comment> \<open>\<open>None\<close>: the call does not return\<close>
  "chunk_text text chunk_size chunk_overlap =
     (if text = [] then Some [] else chunk_loop text chunk_size chunk_overlap 0 [])"

section \<open>RiskAuditEngine\<close>

record rule =
  rule_id :: str
  rule_name :: str
  rule_severity :: str
  rule_patterns :: "re list"
  rule_check_func :: "str option"

definition unlimited_liability_re :: re where
  \<comment> \<open>\<open>unlimited\s+liability\<close>\<close>
  "unlimited_liability_re =
     seqs [lit ''unlimited'', many1 ws, lit ''liability'']"

definition no_limit_re :: re where
  \<comment> \<open>\<open>no\s+(?:limit|cap).*?liability\<close>\<close>
  "no_limit_re =
     seqs [lit ''no'', many1 ws, alts [lit ''limit'', lit ''cap''], lazy_many Dot, lit
       ''liability'']"

definition auto_renew_re :: re where
  \<comment> \<open>\<open>auto(?:matic)?(?:ally)?\s+renew\<close>\<close>
  "auto_renew_re =
     seqs [lit ''auto'', opt (lit ''matic''), opt (lit ''ally''), many1 ws, lit ''renew'']"

definition may_modify_re :: re where
  \<comment> \<open>\<open>(?:may|can|shall)\s+(?:modify|change|amend).*?(?:at any time|without notice)\<close>\<close>
  "may_modify_re =
     seqs [alts [lit ''may'', lit ''can'', lit ''shall''], many1 ws, alts [lit ''modify'', lit
       ''change'', lit ''amend''], lazy_many Dot, alts [lit ''at any time'', lit
       ''without notice'']]"

definition reserves_right_re :: re where
  \<comment> \<open>\<open>reserves?\s+the\s+right\s+to\s+(?:modify|change|amend)\<close>\<close>
  "reserves_right_re =
     seqs [lit ''reserve'', opt (lit ''s''), many1 ws, lit ''the'', many1 ws, lit ''right'',
       many1 ws, lit ''to'', many1 ws, alts [lit ''modify'', lit ''change'', lit ''amend'']]"

definition termination_notice_re :: re where
  \<comment> \<open>\<open>(?:terminate|cancel).*?(\d+)\s+days?\s+notice\<close>\<close>
  "termination_notice_re =
     seqs [alts [lit ''terminate'', lit ''cancel''], lazy_many Dot, Grp (many1 digit), many1
       ws, lit ''day'', opt (lit ''s''), many1 ws, lit ''notice'']"

definition indemnify_re :: re where
  \<comment> \<open>\<open>indemnify.*?(?:from\s+(?:any|all)|harmless)\<close>\<close>
  "indemnify_re =
     seqs [lit ''indemnify'', lazy_many Dot, alts [seqs [lit ''from'', many1 ws, alts [lit
       ''any'', lit ''all'']], lit ''harmless'']]"

definition hold_harmless_re :: re where
  \<comment> \<open>\<open>hold\s+harmless\<close>\<close>
  "hold_harmless_re =
     seqs [lit ''hold'', many1 ws, lit ''harmless'']"

definition as_is_re :: re where
  \<comment> \<open>\<open>as\s+is\<close>\<close>
  "as_is_re =
     seqs [lit ''as'', many1 ws, lit ''is'']"

definition without_warranty_re :: re where
  \<comment> \<open>\<open>without\s+warranty\<close>\<close>
  "without_warranty_re =
     seqs [lit ''without'', many1 ws, lit ''warranty'']"

definition no_warranties_re :: re where
  \<comment> \<open>\<open>no\s+warranties\<close>\<close>
  "no_warranties_re =
     seqs [lit ''no'', many1 ws, lit ''warranties'']"

definition terminat_re :: re where
  \<comment> \<open>\<open>terminat(?:ion|e)\<close>\<close>
  "terminat_re =
     seqs [lit ''terminat'', alts [lit ''ion'', lit ''e'']]"

definition governing_law_re :: re where
  \<comment> \<open>\<open>governing\s+law\<close>\<close>
  "governing_law_re =
     seqs [lit ''governing'', many1 ws, lit ''law'']"

definition auto_renewal_notice_re :: re where
  \<comment> \<open>\<open>(\d+)\s+days?\s+(?:notice|prior)\<close>\<close>
  "auto_renewal_notice_re =
     seqs [Grp (many1 digit), many1 ws, lit ''day'', opt (lit ''s''), many1 ws, alts [lit
       ''notice'', lit ''prior'']]"

definition RISK_RULES :: "rule list" where
  "RISK_RULES =
     [\<lparr>rule_id = u ''MISSING_TERMINATION'', rule_name = u ''Missing Termination Clause'',
        rule_severity = u ''high'', rule_patterns = [],
        rule_check_func = Some (u ''check_termination_clause'')\<rparr>,
      \<lparr>rule_id = u ''UNLIMITED_LIABILITY'', rule_name = u ''Unlimited Liability'',
        rule_severity = u ''high'', rule_patterns = [unlimited_liability_re, no_limit_re],
        rule_check_func = None\<rparr>,
      \<lparr>rule_id = u ''AUTO_RENEWAL'', rule_name = u ''Automatic Renewal Without Notice'',
        rule_severity = u ''medium'', rule_patterns = [auto_renew_re],
        rule_check_func = Some (u ''check_auto_renewal'')\<rparr>,
      \<lparr>rule_id = u ''MISSING_GOVERNING_LAW'', rule_name = u ''Missing Governing Law'',
        rule_severity = u ''medium'', rule_patterns = [],
        rule_check_func = Some (u ''check_governing_law'')\<rparr>,
      \<lparr>rule_id = u ''UNILATERAL_MODIFICATION'', rule_name = u ''Unilateral Modification Rights'',
        rule_severity = u ''high'', rule_patterns = [may_modify_re, reserves_right_re],
        rule_check_func = None\<rparr>,
      \<lparr>rule_id = u ''SHORT_NOTICE_TERMINATION'', rule_name = u ''Short Notice Period'',
        rule_severity = u ''medium'', rule_patterns = [termination_notice_re],
        rule_check_func = Some (u ''check_termination_notice'')\<rparr>,
      \<lparr>rule_id = u ''BROAD_INDEMNITY'', rule_name = u ''Broad Indemnity Clause'',
        rule_severity = u ''high'', rule_patterns = [indemnify_re, hold_harmless_re],
        rule_check_func = None\<rparr>,
      \<lparr>rule_id = u ''NO_WARRANTY'', rule_name = u ''No Warranty Disclaimer'',
        rule_severity = u ''low'',
        rule_patterns = [as_is_re, without_warranty_re, no_warranties_re],
        rule_check_func = None\<rparr>]"

record engine =
  model :: str
  client_available :: bool

definition dict_truthy :: "dict option \<Rightarrow> bool" where
  \<comment> \<open>the truth value of an optional dict: \<open>None\<close> and \<open>{}\<close> are false\<close>
  "dict_truthy d = (case d of None \<Rightarrow> False | Some kvs \<Rightarrow> kvs \<noteq> [])"

definition span_result :: "str \<Rightarrow> int \<Rightarrow> int \<Rightarrow> dict" where
  \<comment> \<open>\<open>{'evidence': text[start:end], 'char_start': start, 'char_end': end}\<close>\<close>
  "span_result text start end_pos =
     [(u ''evidence'', PStr (py_slice text (Some start) (Some end_pos))),
      (u ''char_start'', PInt start), (u ''char_end'', PInt end_pos)]"

definition check_termination_clause :: "engine \<Rightarrow> str \<Rightarrow> dict option \<Rightarrow> error + dict option" where
  "check_termination_clause self text extracted_data =
     (if re_search text True False terminat_re = None
      then Inr (Some [(u ''evidence'', PStr (u ''No termination clause found in document''))])
      else if dict_truthy extracted_data \<and>
              \<not> truthy (dict_get (the extracted_data) (u ''termination'') PNone)
      then Inr (Some [(u ''evidence'', PStr (u ''Termination clause not clearly defined''))])
      else Inr None)"

definition renewal_window :: "str \<Rightarrow> rmatch_result \<Rightarrow> str" where
  \<comment> \<open>\<open>text[max(0, m.start() - 500):m.end() + 500]\<close>\<close>
  "renewal_window text m =
     (case m of (s, e, c) \<Rightarrow> py_slice text (Some (max 0 (int s - 500))) (Some (int e + 500)))"

definition check_auto_renewal :: "engine \<Rightarrow> str \<Rightarrow> dict option \<Rightarrow> error + dict option" where
  "check_auto_renewal self text extracted_data =
     (case re_search text True False auto_renew_re of
        None \<Rightarrow> Inr None
      | Some (s, e, c) \<Rightarrow>
          (case re_search (renewal_window text (s, e, c)) True False auto_renewal_notice_re of
             None \<Rightarrow>
               Inr (Some (span_result text (int s) (min (int (length text)) (int s + 200))))
           | Some (ns, ne, nc) \<Rightarrow>
               (case py_int (group1 (renewal_window text (s, e, c)) nc) of
                  Inl err \<Rightarrow> Inl err
                | Inr days \<Rightarrow>
                    if days < 30
                    then Inr (Some (span_result text (int s)
                                      (min (int (length text)) (int s + 200))))
                    else Inr None)))"

definition check_governing_law :: "engine \<Rightarrow> str \<Rightarrow> dict option \<Rightarrow> error + dict option" where
  "check_governing_law self text extracted_data =
     (if re_search text True False governing_law_re = None
      then Inr (Some [(u ''evidence'', PStr (u ''No governing law clause found''))])
      else if dict_truthy extracted_data \<and>
              \<not> truthy (dict_get (the extracted_data) (u ''governing_law'') PNone)
      then Inr (Some [(u ''evidence'', PStr (u ''Governing law not clearly specified''))])
      else Inr None)"

fun first_short_notice :: "str \<Rightarrow> rmatch_result list \<Rightarrow> error + dict option" where
  \<comment> \<open>the loop over the matches of \<open>check_termination_notice\<close>\<close>
  "first_short_notice text [] = Inr None"
| "first_short_notice text ((s, e, c) # rest) =
     (case py_int (group1 text c) of
        Inl err \<Rightarrow> Inl err
      | Inr days \<Rightarrow>
          if days < 30
          then Inr (Some (span_result text (int s) (min (int (length text)) (int e + 100))))
          else first_short_notice text rest)"

definition check_termination_notice :: "engine \<Rightarrow> str \<Rightarrow> dict option \<Rightarrow> error + dict option" where
  "check_termination_notice self text extracted_data =
     first_short_notice text (finditer text True False termination_notice_re)"

definition getattr_check ::
  "engine \<Rightarrow> str \<Rightarrow> (str \<Rightarrow> dict option \<Rightarrow> error + dict option) option" where
  \<comment> \<open>\<open>getattr(self, name, None)\<close> at the names the rule table holds\<close>
  "getattr_check self name =
     (if name = u ''check_termination_clause'' then Some (check_termination_clause self)
      else if name = u ''check_auto_renewal'' then Some (check_auto_renewal self)
      else if name = u ''check_governing_law'' then Some (check_governing_law self)
      else if name = u ''check_termination_notice'' then Some (check_termination_notice self)
      else None)"

definition pattern_finding :: "str \<Rightarrow> rule \<Rightarrow> rmatch_result \<Rightarrow> dict" where
  \<comment> \<open>the finding built in the body of the loop over the matches\<close>
  "pattern_finding text rule m =
     (case m of (s, e, c) \<Rightarrow>
        [(u ''finding_type'', PStr (rule_id rule)),
         (u ''severity'', PStr (rule_severity rule)),
         (u ''description'', PStr (rule_name rule)),
         (u ''evidence'',
            PStr (strip (py_slice text (Some (max 0 (int s - 100)))
                                  (Some (min (int (length text)) (int e + 100)))))),
         (u ''char_start'', PInt (int s)),
         (u ''char_end'', PInt (int e))])"

fun pattern_findings :: "str \<Rightarrow> rule \<Rightarrow> re list \<Rightarrow> dict list" where
  \<comment> \<open>the loop over the patterns of one rule; \<open>break\<close> leaves the loop over the matches only\<close>
  "pattern_findings text rule [] = []"
| "pattern_findings text rule (pattern # rest) =
     (case finditer text True False pattern of
        [] \<Rightarrow> []
      | m # ms \<Rightarrow> [pattern_finding text rule m]) @ pattern_findings text rule rest"

definition check_finding :: "rule \<Rightarrow> dict \<Rightarrow> dict" where
  "check_finding rule result =
     [(u ''finding_type'', PStr (rule_id rule)),
      (u ''severity'', PStr (rule_severity rule)),
      (u ''description'', PStr (rule_name rule)),
      (u ''evidence'', dict_get result (u ''evidence'') (PStr [])),
      (u ''char_start'', dict_get result (u ''char_start'') PNone),
      (u ''char_end'', dict_get result (u ''char_end'') PNone)]"

definition check_findings :: "engine \<Rightarrow> str \<Rightarrow> dict option \<Rightarrow> rule \<Rightarrow> error + dict list" where
  \<comment> \<open>the second half of the loop body: the rule's custom check\<close>
  "check_findings self text extracted_data rule =
     (case rule_check_func rule of
        None \<Rightarrow> Inr []
      | Some name \<Rightarrow>
          if name = [] then Inr []
          else
            (case getattr_check self name of
               None \<Rightarrow> Inr []
             | Some check_method \<Rightarrow>
                 (case check_method text extracted_data of
                    Inl err \<Rightarrow> Inl err
                  | Inr result \<Rightarrow>
                      if dict_truthy result then Inr [check_finding rule (the result)]
                      else Inr [])))"

fun audit_rules :: "engine \<Rightarrow> str \<Rightarrow> dict option \<Rightarrow> rule list \<Rightarrow> error + dict list" where
  \<comment> \<open>the loop over the rule table\<close>
  "audit_rules self text extracted_data [] = Inr []"
| "audit_rules self text extracted_data (rule # rest) =
     (case check_findings self text extracted_data rule of
        Inl err \<Rightarrow> Inl err
      | Inr found \<Rightarrow>
          (case audit_rules self text extracted_data rest of
             Inl err \<Rightarrow> Inl err
           | Inr others \<Rightarrow>
               Inr (pattern_findings text rule (rule_patterns rule) @ found @ others)))"

definition audit_document ::
  "engine \<Rightarrow> str \<Rightarrow> dict option \<Rightarrow> error + (dict list \<times> int)" where
  "audit_document self text extracted_data =
     (case audit_rules self text extracted_data RISK_RULES of
        Inl err \<Rightarrow> Inl err
      | Inr findings \<Rightarrow>
          (case calculate_risk_score findings of
             Inl err \<Rightarrow> Inl err
           | Inr risk_score \<Rightarrow> Inr (findings, risk_score)))"

section \<open>ContractExtractor\<close>

definition party_between_re :: re where
  \<comment> \<open>\<open>between\s+([A-Z][A-Za-z\s&,\.]+?)\s+(?:and|&)\<close>\<close>
  "party_between_re =
     seqs [lit ''between'', many1 ws, Grp (Seq (Cls False [Rng 65 90]) (lazy_many1 (Cls False
       [Rng 65 90, Rng 97 122, Space, Ch 38, Ch 44, Ch 46]))), many1 ws, alts [lit ''and'', lit
       ''&'']]"

definition party_entered_re :: re where
  \<comment> \<open>\<open>entered into by\s+([A-Z][A-Za-z\s&,\.]+?)\s+(?:and|&)\<close>\<close>
  "party_entered_re =
     seqs [lit ''entered into by'', many1 ws, Grp (Seq (Cls False [Rng 65 90]) (lazy_many1 (Cls
       False [Rng 65 90, Rng 97 122, Space, Ch 38, Ch 44, Ch 46]))), many1 ws, alts [lit
       ''and'', lit ''&'']]"

definition party_label_re :: re where
  \<comment> \<open>\<open>PARTY\s+(?:A|1):\s*([A-Z][A-Za-z\s&,\.]+?)(?:\n|$)\<close>\<close>
  "party_label_re =
     seqs [lit ''PARTY'', many1 ws, alts [lit ''A'', lit ''1''], lit '':'', many ws, Grp (Seq
       (Cls False [Rng 65 90]) (lazy_many1 (Cls False [Rng 65 90, Rng 97 122, Space, Ch 38, Ch
       44, Ch 46]))), alts [Chr 10, Eol]]"

definition party_role_re :: re where
  \<comment> \<open>\<open>(?:Client|Vendor|Contractor):\s*([A-Z][A-Za-z\s&,\.]+?)(?:\n|$)\<close>\<close>
  "party_role_re =
     seqs [alts [lit ''Client'', lit ''Vendor'', lit ''Contractor''], lit '':'', many ws, Grp
       (Seq (Cls False [Rng 65 90]) (lazy_many1 (Cls False [Rng 65 90, Rng 97 122, Space, Ch
       38, Ch 44, Ch 46]))), alts [Chr 10, Eol]]"

definition date_numeric_re :: re where
  \<comment> \<open>\<open>(?:effective|dated?|entered into).*?(\d{1,2}[\/\-]\d{1,2}[\/\-]\d{2,4})\<close>\<close>
  "date_numeric_re =
     seqs [alts [lit ''effective'', Seq (lit ''date'') (opt (lit ''d'')), lit
       ''entered into''], lazy_many Dot, Grp (seqs [Rep 1 (Some 2) True digit, Cls False [Ch
       47, Ch 45], Rep 1 (Some 2) True digit, Cls False [Ch 47, Ch 45], Rep 2 (Some 4) True
       digit])]"

definition date_words_re :: re where
  \<comment> \<open>\<open>(?:effective|dated?|entered into).*?([A-Z][a-z]+\s+\d{1,2},?\s+\d{4})\<close>\<close>
  "date_words_re =
     seqs [alts [lit ''effective'', Seq (lit ''date'') (opt (lit ''d'')), lit
       ''entered into''], lazy_many Dot, Grp (seqs [Cls False [Rng 65 90], many1 (Cls False
       [Rng 97 122]), many1 ws, Rep 1 (Some 2) True digit, opt (lit '',''), many1 ws, Rep 4
       (Some 4) True digit])]"

definition date_label_re :: re where
  \<comment> \<open>\<open>Effective Date:\s*([A-Z][a-z]+\s+\d{1,2},?\s+\d{4})\<close>\<close>
  "date_label_re =
     seqs [lit ''Effective Date:'', many ws, Grp (seqs [Cls False [Rng 65 90], many1 (Cls False
       [Rng 97 122]), many1 ws, Rep 1 (Some 2) True digit, opt (lit '',''), many1 ws, Rep 4
       (Some 4) True digit])]"

definition term_duration_re :: re where
  \<comment> \<open>\<open>(?:term|duration).*?(\d+\s+(?:year|month|day)s?)\<close>\<close>
  "term_duration_re =
     seqs [alts [lit ''term'', lit ''duration''], lazy_many Dot, Grp (seqs [many1 digit, many1
       ws, alts [lit ''year'', lit ''month'', lit ''day''], opt (lit ''s'')])]"

definition term_period_re :: re where
  \<comment> \<open>\<open>for a period of\s+(\d+\s+(?:year|month|day)s?)\<close>\<close>
  "term_period_re =
     seqs [lit ''for a period of'', many1 ws, Grp (seqs [many1 digit, many1 ws, alts [lit
       ''year'', lit ''month'', lit ''day''], opt (lit ''s'')])]"

definition term_label_re :: re where
  \<comment> \<open>\<open>Term:\s*([^\n]+)\<close>\<close>
  "term_label_re =
     seqs [lit ''Term:'', many ws, Grp (many1 (Cls True [Ch 10]))]"

definition law_governed_re :: re where
  \<comment> \<open>\<open>governed by.*?laws of\s+([A-Z][a-z]+(?:\s+[A-Z][a-z]+)*)\<close>\<close>
  "law_governed_re =
     seqs [lit ''governed by'', lazy_many Dot, lit ''laws of'', many1 ws, Grp (Seq (Seq (Cls
       False [Rng 65 90]) (many1 (Cls False [Rng 97 122]))) (many (Seq (many1 ws) (Seq (Cls
       False [Rng 65 90]) (many1 (Cls False [Rng 97 122]))))))]"

definition law_governing_re :: re where
  \<comment> \<open>\<open>governing law.*?([A-Z][a-z]+(?:\s+[A-Z][a-z]+)*)\s+law\<close>\<close>
  "law_governing_re =
     seqs [lit ''governing law'', lazy_many Dot, Grp (Seq (Seq (Cls False [Rng 65 90]) (many1
       (Cls False [Rng 97 122]))) (many (Seq (many1 ws) (Seq (Cls False [Rng 65 90]) (many1
       (Cls False [Rng 97 122])))))), many1 ws, lit ''law'']"

definition law_label_re :: re where
  \<comment> \<open>\<open>Governing Law:\s*([^\n]+)\<close>\<close>
  "law_label_re =
     seqs [lit ''Governing Law:'', many ws, Grp (many1 (Cls True [Ch 10]))]"

definition cap_after_re :: re where
  \<comment> \<open>\<open>liability.*?(?:limited|capped|exceed).*?(?:USD|EUR|\$|\<euro>|\<pounds>)\s*(\d+(?:,\d{3})*(?:\.\d{2})?)\<close>\<close>
  "cap_after_re =
     seqs [lit ''liability'', lazy_many Dot, alts [lit ''limited'', lit ''capped'', lit
       ''exceed''], lazy_many Dot, alts [lit ''USD'', lit ''EUR'', lit ''$'', Chr 8364, Chr
       163], many ws, Grp (seqs [many1 digit, many (Seq (lit '','') (Rep 3 (Some 3) True
       digit)), opt (Seq (lit ''.'') (Rep 2 (Some 2) True digit))])]"

definition cap_before_re :: re where
  \<comment> \<open>\<open>(?:USD|EUR|\$|\<euro>|\<pounds>)\s*(\d+(?:,\d{3})*(?:\.\d{2})?).*?liability\<close>\<close>
  "cap_before_re =
     seqs [alts [lit ''USD'', lit ''EUR'', lit ''$'', Chr 8364, Chr 163], many ws, Grp (seqs
       [many1 digit, many (Seq (lit '','') (Rep 3 (Some 3) True digit)), opt (Seq (lit ''.'')
       (Rep 2 (Some 2) True digit))]), lazy_many Dot, lit ''liability'']"

definition currency_re :: re where
  \<comment> \<open>\<open>(USD|EUR|GBP|\$|\<euro>|\<pounds>)\<close>\<close>
  "currency_re =
     Grp (alts [lit ''USD'', lit ''EUR'', lit ''GBP'', lit ''$'', Chr 8364, Chr 163])"

definition renewal_notice_re :: re where
  \<comment> \<open>\<open>(\d+)\s+day[s]?\s+(?:notice|prior)\<close>\<close>
  "renewal_notice_re =
     seqs [Grp (many1 digit), many1 ws, lit ''day'', opt (Cls False [Ch 115]), many1 ws, alts
       [lit ''notice'', lit ''prior'']]"

definition strip_chars :: "str \<Rightarrow> str \<Rightarrow> str" where
  \<comment> \<open>\<open>s.strip(chars)\<close>\<close>
  "strip_chars chars s =
     rev (dropWhile (\<lambda>c. c \<in> set chars) (rev (dropWhile (\<lambda>c. c \<in> set chars) s)))"

definition findall1 :: "str \<Rightarrow> bool \<Rightarrow> bool \<Rightarrow> re \<Rightarrow> str list" where
  \<comment> \<open>\<open>re.findall\<close> for a pattern with one group: what group 1 holds in each match, the
      empty string where the group took no part\<close>
  "findall1 t ic ml r =
     map (\<lambda>(s, e, c). case group1 t c of None \<Rightarrow> [] | Some g \<Rightarrow> g) (finditer t ic ml r)"

definition party_patterns :: "re list" where
  "party_patterns = [party_between_re, party_entered_re, party_label_re, party_role_re]"

definition clean_party :: "str \<Rightarrow> str" where
  \<comment> \<open>\<open>match.strip().strip(',').strip('.')\<close>\<close>
  "clean_party m = strip_chars (u ''.'') (strip_chars (u '','') (strip m))"

fun collect_parties :: "str \<Rightarrow> re list \<Rightarrow> str list" where
  \<comment> \<open>the two nested loops that fill \<open>parties\<close>\<close>
  "collect_parties t [] = []"
| "collect_parties t (pattern # rest) =
     filter (\<lambda>party. party \<noteq> [] \<and> 3 < length party)
       (map clean_party (findall1 t True True pattern)) @ collect_parties t rest"

text \<open>
  \<open>list(set(parties))\<close> lists the distinct parties in the order of the set's hash table,
  which the interpreter fixes anew in each process.  The extractor takes that listing as the
  parameter \<open>list_of_set\<close>.
\<close>

definition extract_parties :: "(str list \<Rightarrow> str list) \<Rightarrow> str \<Rightarrow> str list" where
  "extract_parties list_of_set text =
     py_slice (list_of_set (collect_parties (py_slice text None (Some 2000)) party_patterns))
       None (Some 5)"

fun search_first :: "str \<Rightarrow> re list \<Rightarrow> rmatch_result option" where
  \<comment> \<open>the loop \<open>for pattern in patterns: match = re.search(...); if match: ...\<close> up to
      its first match\<close>
  "search_first t [] = None"
| "search_first t (pattern # rest) =
     (case re_search t True False pattern of
        None \<Rightarrow> search_first t rest
      | Some m \<Rightarrow> Some m)"

definition date_patterns :: "re list" where
  "date_patterns = [date_numeric_re, date_words_re, date_label_re]"

definition extract_dates :: "str \<Rightarrow> str option" where
  \<comment> \<open>returns \<open>match.group(1)\<close> as it is\<close>
  "extract_dates text =
     (case search_first (py_slice text None (Some 2000)) date_patterns of
        None \<Rightarrow> None
      | Some (s, e, c) \<Rightarrow> group1 (py_slice text None (Some 2000)) c)"

definition group1_strip :: "str \<Rightarrow> cap \<Rightarrow> error + str option" where
  \<comment> \<open>\<open>match.group(1).strip()\<close>; \<open>None\<close> has no \<open>strip\<close>\<close>
  "group1_strip t c =
     (case group1 t c of None \<Rightarrow> Inl AttributeError | Some g \<Rightarrow> Inr (Some (strip g)))"

definition term_patterns :: "re list" where
  "term_patterns = [term_duration_re, term_period_re, term_label_re]"

definition extract_term :: "str \<Rightarrow> error + str option" where
  "extract_term text =
     (case search_first (py_slice text None (Some 3000)) term_patterns of
        None \<Rightarrow> Inr None
      | Some (s, e, c) \<Rightarrow> group1_strip (py_slice text None (Some 3000)) c)"

definition law_patterns :: "re list" where
  "law_patterns = [law_governed_re, law_governing_re, law_label_re]"

definition extract_governing_law :: "str \<Rightarrow> error + str option" where
  "extract_governing_law text =
     (case search_first text law_patterns of
        None \<Rightarrow> Inr None
      | Some (s, e, c) \<Rightarrow> group1_strip text c)"

fun bits :: "nat \<Rightarrow> nat" where
  \<comment> \<open>the number of binary digits\<close>
  "bits n = (if n = 0 then 0 else Suc (bits (n div 2)))"

declare bits.simps [simp del]

definition round_double :: "nat \<Rightarrow> nat \<Rightarrow> pyval" where
  \<comment> \<open>the float nearest to \<open>n / d\<close>, ties to the even mantissa: 53 binary digits, the
      smallest step \<open>2 ^ -1074\<close>, and \<open>inf\<close> from \<open>2 ^ 1024\<close> on\<close>
  "round_double n d =
     (if n = 0 then PFloat 0
      else
        let e0 = int (bits n) - int (bits d);
            e = (if (if 0 \<le> e0 then d * 2 ^ nat e0 \<le> n else d \<le> n * 2 ^ nat (- e0))
                 then e0 else e0 - 1);
            sh = max (e - 52) (- 1074);
            a = (if 0 \<le> sh then n else n * 2 ^ nat (- sh));
            b = (if 0 \<le> sh then d * 2 ^ nat sh else d);
            m0 = a div b;
            r = a mod b;
            m = (if b < 2 * r \<or> (2 * r = b \<and> odd m0) then m0 + 1 else m0);
            v = (if 0 \<le> sh then rat_of_nat m * 2 ^ nat sh else rat_of_nat m / 2 ^ nat (- sh))
        in if 2 ^ 1024 \<le> v then PFloatInf False else PFloat v)"

definition py_float :: "str \<Rightarrow> error + pyval" where
  \<comment> \<open>\<open>float(s)\<close> for a string without letters: optional whitespace, an optional sign,
      decimal digits with at most one point, optional whitespace.  The spellings with an
      exponent and \<open>inf\<close> and \<open>nan\<close> have a letter; the extractor passes none\<close>
  "py_float s =
     (let body = strip s;
          neg = (body \<noteq> [] \<and> hd body = 45);
          ds = (if body \<noteq> [] \<and> (hd body = 45 \<or> hd body = 43) then tl body else body);
          ip = takeWhile (\<lambda>c. c \<noteq> 46) ds;
          fp = drop (Suc (length ip)) ds
      in if (ip = [] \<and> fp = []) \<or> \<not> (ip = [] \<or> digit_run False ip) \<or>
            \<not> (fp = [] \<or> digit_run False fp)
         then Inl ValueError
         else
           (case round_double
                   (digits_value (filter (\<lambda>c. c \<noteq> 95) (ip @ fp)))
                   (10 ^ length (filter (\<lambda>c. c \<noteq> 95) fp)) of
              PFloat v \<Rightarrow> Inr (PFloat (if neg then - v else v))
            | PFloatInf b \<Rightarrow> Inr (PFloatInf neg)
            | other \<Rightarrow> Inr other))"

definition currency_code :: "str option \<Rightarrow> str" where
  \<comment> \<open>\<open>currency\<close> after the \<open>if\<close> and \<open>elif\<close> on \<open>curr\<close>, here \<open>marker\<close>\<close>
  "currency_code marker =
     (if marker = Some [8364] \<or> marker = Some (u ''EUR'') then u ''EUR''
      else if marker = Some [163] \<or> marker = Some (u ''GBP'') then u ''GBP''
      else u ''USD'')"

definition currency_of :: "str \<Rightarrow> str" where
  \<comment> \<open>the currency read off \<open>match.group(0)\<close>; the search for the marker heeds the case\<close>
  "currency_of whole =
     (case re_search whole False False currency_re of
        None \<Rightarrow> u ''USD''
      | Some (s, e, c) \<Rightarrow> currency_code (group1 whole c))"

definition cap_patterns :: "re list" where
  "cap_patterns = [cap_after_re, cap_before_re]"

fun cap_search :: "(str \<Rightarrow> error + pyval) \<Rightarrow> str \<Rightarrow> re list \<Rightarrow> error + dict" where
  \<comment> \<open>the loop of \<open>extract_liability_cap\<close> over the function that reads the amount;
      \<open>except ValueError: pass\<close> goes on with the next pattern\<close>
  "cap_search to_float text [] = Inr []"
| "cap_search to_float text (pattern # rest) =
     (case re_search text True False pattern of
        None \<Rightarrow> cap_search to_float text rest
      | Some (s, e, c) \<Rightarrow>
          (case group1 text c of
             None \<Rightarrow> Inl AttributeError
           | Some g \<Rightarrow>
               (case to_float (filter (\<lambda>ch. ch \<noteq> 44) g) of
                  Inl err \<Rightarrow> if err = ValueError then cap_search to_float text rest else Inl err
                | Inr amount \<Rightarrow>
                    Inr [(u ''amount'', amount),
                         (u ''currency'', PStr (currency_of (group0 text (s, e, c))))])))"

definition extract_liability_cap :: "str \<Rightarrow> error + dict" where
  "extract_liability_cap text = cap_search py_float text cap_patterns"

definition extract_auto_renewal :: "str \<Rightarrow> str" where
  \<comment> \<open>the f-string writes a group that took no part as \<open>None\<close>\<close>
  "extract_auto_renewal text =
     (if re_search text True False auto_renew_re \<noteq> None then
        (case re_search text True False renewal_notice_re of
           None \<Rightarrow> u ''Yes''
         | Some (s, e, c) \<Rightarrow>
             u ''Yes, '' @ (case group1 text c of None \<Rightarrow> u ''None'' | Some g \<Rightarrow> g) @
             u '' days notice required'')
      else u ''No'')"

section \<open>Risk score\<close>

lemma finding_weight_Inr:
  "hashable (dict_get f k_severity (PStr (u ''low''))) \<Longrightarrow>
   finding_weight f =
     Inr (if dict_get f k_severity (PStr (u ''low'')) = PStr (u ''high'') then 30
          else if dict_get f k_severity (PStr (u ''low'')) = PStr (u ''medium'') then 15
          else 5)"
  by (simp add: finding_weight_def severity_weights_def)

lemma finding_weight_Inl:
  "\<not> hashable (dict_get f k_severity (PStr (u ''low''))) \<Longrightarrow> finding_weight f = Inl TypeError"
  by (simp add: finding_weight_def severity_weights_def)

lemma sum_weights_eq:
  "sum_weights fs =
     (if \<forall>f\<in>set fs. hashable (dict_get f k_severity (PStr (u ''low'')))
      then Inr (sum_list (map (\<lambda>f.
             if dict_get f k_severity (PStr (u ''low'')) = PStr (u ''high'') then 30
             else if dict_get f k_severity (PStr (u ''low'')) = PStr (u ''medium'') then 15
             else 5) fs))
      else Inl TypeError)"
proof (induction fs)
  case Nil
  show ?case by simp
next
  case (Cons f fs)
  show ?case
  proof (cases "hashable (dict_get f k_severity (PStr (u ''low'')))")
    case True
    with Cons show ?thesis by (simp add: finding_weight_Inr)
  next
    case False
    then show ?thesis by (simp add: finding_weight_Inl)
  qed
qed

lemma risk_score_eq:
  "calculate_risk_score fs =
     (if \<forall>f\<in>set fs. hashable (dict_get f k_severity (PStr (u ''low'')))
      then Inr (min (sum_list (map (\<lambda>f.
             if dict_get f k_severity (PStr (u ''low'')) = PStr (u ''high'') then 30
             else if dict_get f k_severity (PStr (u ''low'')) = PStr (u ''medium'') then 15
             else 5) fs)) 100)
      else Inl TypeError)"
  by (cases fs) (simp_all add: calculate_risk_score_def sum_weights_eq del: sum_weights.simps)

lemma sum_list_mset_cong:
  fixes w :: "'a \<Rightarrow> int"
  shows "mset fs = mset gs \<Longrightarrow> sum_list (map w fs) = sum_list (map w gs)"
proof -
  assume "mset fs = mset gs"
  then have "mset (map w fs) = mset (map w gs)"
    by simp
  then have "sum_mset (mset (map w fs)) = sum_mset (mset (map w gs))"
    by (rule arg_cong)
  then show ?thesis
    by (simp only: sum_mset_sum_list)
qed

lemma weights_nonneg:
  "0 \<le> sum_list (map (\<lambda>f. if P f then 30 else if Q f then 15 else (5::int)) fs)"
  by (induction fs) simp_all

lemmas risk_defs = calculate_risk_score_def finding_weight_def severity_weights_def dict_get_def
  k_severity_def u_def

text \<open>
  Claim C6 says that the risk score of every finding list is the capped sum of the weights.
  The weight of a finding is looked up in a dict under the finding's severity, and a severity
  that is a list cannot be looked up: the call raises \<open>TypeError\<close> and returns no score.
\<close>

theorem risk_score_unhashable_severity:
  "calculate_risk_score [[(k_severity, PList [PStr (u ''high'')])]] = Inl TypeError"
  by (simp add: risk_defs)

text \<open>
  Claim C6, for finding lists in which no severity is a list.  The risk score is the sum of
  the weights of the findings (30 for severity high, 15 for medium, 5 for low and for anything
  else), cut off at 100.  It lies between 0 and 100, is 30 for one high finding and 75 for
  two high findings and one medium finding.  Whether or not a severity is a list, the outcome
  of the call does not depend on the order of the findings.
\<close>

theorem risk_score_capped_sum:
  assumes "\<forall>f\<in>set fs. hashable (dict_get f k_severity (PStr (u ''low'')))"
  shows "calculate_risk_score fs =
      Inr (min (sum_list (map (\<lambda>f.
             if dict_get f k_severity (PStr (u ''low'')) = PStr (u ''high'') then 30
             else if dict_get f k_severity (PStr (u ''low'')) = PStr (u ''medium'') then 15
             else 5) fs)) 100) \<and>
    (\<exists>n. calculate_risk_score fs = Inr n \<and> 0 \<le> n \<and> n \<le> 100) \<and>
    (\<forall>gs hs. mset gs = mset hs \<longrightarrow> calculate_risk_score gs = calculate_risk_score hs) \<and>
    calculate_risk_score [[(k_severity, PStr (u ''high''))]] = Inr 30 \<and>
    calculate_risk_score
      [[(k_severity, PStr (u ''high''))], [(k_severity, PStr (u ''high''))],
       [(k_severity, PStr (u ''medium''))]] = Inr 75"
proof -
  let ?w = "\<lambda>f. if dict_get f k_severity (PStr (u ''low'')) = PStr (u ''high'') then 30
             else if dict_get f k_severity (PStr (u ''low'')) = PStr (u ''medium'') then 15
             else (5::int)"
  have val: "calculate_risk_score fs = Inr (min (sum_list (map ?w fs)) 100)"
    using assms by (simp add: risk_score_eq)
  have "0 \<le> sum_list (map ?w fs)" by (rule weights_nonneg)
  then have "0 \<le> min (sum_list (map ?w fs)) 100 \<and> min (sum_list (map ?w fs)) 100 \<le> 100"
    by simp
  with val have bounds: "\<exists>n. calculate_risk_score fs = Inr n \<and> 0 \<le> n \<and> n \<le> 100"
    by blast
  have perm: "\<forall>gs hs. mset gs = mset hs \<longrightarrow> calculate_risk_score gs = calculate_risk_score hs"
  proof (intro allI impI)
    fix gs hs :: "dict list"
    assume m: "mset gs = mset hs"
    then have "set gs = set hs" by (rule mset_eq_setD)
    moreover from m have "sum_list (map ?w gs) = sum_list (map ?w hs)"
      by (rule sum_list_mset_cong)
    ultimately show "calculate_risk_score gs = calculate_risk_score hs"
      by (simp only: risk_score_eq)
  qed
  have one: "calculate_risk_score [[(k_severity, PStr (u ''high''))]] = Inr 30"
    by (simp add: risk_defs)
  have three: "calculate_risk_score
      [[(k_severity, PStr (u ''high''))], [(k_severity, PStr (u ''high''))],
       [(k_severity, PStr (u ''medium''))]] = Inr 75"
    by (simp add: risk_defs)
  from val bounds perm one three show ?thesis
    by (intro conjI)
qed

theorem risk_score_capped_sum_witness:
  "hashable (dict_get [(k_severity, PStr (u ''high''))] k_severity (PStr (u ''low''))) \<and>
   hashable (dict_get [(u ''finding_type'', PStr (u ''X''))] k_severity (PStr (u ''low''))) \<and>
   calculate_risk_score [[(k_severity, PStr (u ''high''))], [(u ''finding_type'', PStr (u ''X''))]] =
     Inr 35 \<and>
   calculate_risk_score [[(u ''finding_type'', PStr (u ''X''))], [(k_severity, PStr (u ''high''))]] =
     Inr 35"
proof -
  have h: "\<forall>f\<in>set [[(k_severity, PStr (u ''high''))], [(u ''finding_type'', PStr (u ''X''))]].
      hashable (dict_get f k_severity (PStr (u ''low'')))"
    by (simp add: dict_get_def k_severity_def u_def)
  have m: "mset [[(k_severity, PStr (u ''high''))], [(u ''finding_type'', PStr (u ''X''))]] =
      mset [[(u ''finding_type'', PStr (u ''X''))], [(k_severity, PStr (u ''high''))]]"
    by (simp add: add_mset_commute)
  note inst = risk_score_capped_sum [OF h]
  from inst have v: "calculate_risk_score
      [[(k_severity, PStr (u ''high''))], [(u ''finding_type'', PStr (u ''X''))]] =
      Inr (min (sum_list (map (\<lambda>f.
             if dict_get f k_severity (PStr (u ''low'')) = PStr (u ''high'') then 30
             else if dict_get f k_severity (PStr (u ''low'')) = PStr (u ''medium'') then 15
             else 5) [[(k_severity, PStr (u ''high''))], [(u ''finding_type'', PStr (u ''X''))]]))
           100)"
    by (rule conjunct1)
  have v35: "calculate_risk_score
      [[(k_severity, PStr (u ''high''))], [(u ''finding_type'', PStr (u ''X''))]] = Inr 35"
    by (simp only: v) (simp add: dict_get_def k_severity_def u_def)
  from inst have "\<forall>gs hs. mset gs = mset hs \<longrightarrow> calculate_risk_score gs = calculate_risk_score hs"
    by (elim conjE)
  with m have "calculate_risk_score
      [[(k_severity, PStr (u ''high''))], [(u ''finding_type'', PStr (u ''X''))]] =
      calculate_risk_score
      [[(u ''finding_type'', PStr (u ''X''))], [(k_severity, PStr (u ''high''))]]"
    by blast
  with v35 have "calculate_risk_score
      [[(u ''finding_type'', PStr (u ''X''))], [(k_severity, PStr (u ''high''))]] = Inr 35"
    by simp
  moreover from h
  have "hashable (dict_get [(k_severity, PStr (u ''high''))] k_severity (PStr (u ''low'')))"
    and "hashable (dict_get [(u ''finding_type'', PStr (u ''X''))] k_severity (PStr (u ''low'')))"
    by simp_all
  ultimately show ?thesis using v35 by (intro conjI)
qed

section \<open>Lexical retrieval\<close>

lemma starts_with_iff: "starts_with w t \<longleftrightarrow> (\<exists>s. t = w @ s)"
  by (induction w t rule: starts_with.induct) auto

lemma contains_iff: "contains w t \<longleftrightarrow> (\<exists>p s. t = p @ w @ s)"
proof (induction t)
  case Nil
  show ?case by simp
next
  case (Cons b t)
  have "(\<exists>p s. b # t = p @ w @ s) \<longleftrightarrow> (\<exists>s. b # t = w @ s) \<or> (\<exists>p s. t = p @ w @ s)"
  proof
    assume "\<exists>p s. b # t = p @ w @ s"
    then obtain p s where ps: "b # t = p @ w @ s" by blast
    show "(\<exists>s. b # t = w @ s) \<or> (\<exists>p s. t = p @ w @ s)"
    proof (cases p)
      case Nil
      with ps show ?thesis by auto
    next
      case (Cons a p')
      with ps have "t = p' @ w @ s" by simp
      then show ?thesis by blast
    qed
  next
    assume "(\<exists>s. b # t = w @ s) \<or> (\<exists>p s. t = p @ w @ s)"
    then show "\<exists>p s. b # t = p @ w @ s"
    proof
      assume "\<exists>s. b # t = w @ s"
      then obtain s where "b # t = [] @ w @ s" by auto
      then show ?thesis by blast
    next
      assume "\<exists>p s. t = p @ w @ s"
      then obtain p s where "b # t = (b # p) @ w @ s" by auto
      then show ?thesis by blast
    qed
  qed
  with Cons show ?case by (simp add: starts_with_iff)
qed

lemma word_score_card:
  "word_score (query_words lw q) text = card {w \<in> set (str_split (lw q)). contains w text}"
proof -
  let ?P = "\<lambda>w. contains w text"
  have "distinct (filter ?P (remdups (str_split (lw q))))" by simp
  then have "card (set (filter ?P (remdups (str_split (lw q))))) =
      length (filter ?P (remdups (str_split (lw q))))"
    by (rule distinct_card)
  moreover have "set (filter ?P (remdups (str_split (lw q)))) =
      {w \<in> set (str_split (lw q)). contains w text}"
    by auto
  ultimately show ?thesis
    by (simp add: word_score_def query_words_def)
qed

lemma key_neq: "k_text_content \<noteq> k_relevance_score"
  by (simp add: k_text_content_def k_relevance_score_def u_def)

lemma relevance_with_score: "relevance (with_score n c) = int n"
  by (simp add: relevance_def with_score_def update_conv')

lemma map_of_with_score:
  "map_of (with_score n c) = (map_of c)(k_relevance_score \<mapsto> PInt (int n))"
  by (simp add: with_score_def update_conv')

lemma update_fresh: "k \<notin> fst ` set al \<Longrightarrow> AList.update k v al = al @ [(k, v)]"
  by (induction al) auto

lemma filter_take_prefix: "\<exists>m. filter P (take k xs) = take m (filter P xs)"
proof (induction xs arbitrary: k)
  case Nil
  show ?case by simp
next
  case (Cons x xs)
  show ?case
  proof (cases k)
    case 0
    have "filter P (take k (x # xs)) = take 0 (filter P (x # xs))" using 0 by simp
    then show ?thesis by blast
  next
    case (Suc j)
    from Cons [of j] obtain m where m: "filter P (take j xs) = take m (filter P xs)" by blast
    show ?thesis
    proof (cases "P x")
      case True
      with m Suc have "filter P (take k (x # xs)) = take (Suc m) (filter P (x # xs))" by simp
      then show ?thesis by blast
    next
      case False
      with m Suc have "filter P (take k (x # xs)) = take m (filter P (x # xs))" by simp
      then show ?thesis by blast
    qed
  qed
qed

lemma score_chunks_members:
  "score_chunks lw qw cs = Inr sc \<Longrightarrow>
   \<forall>r\<in>set sc. \<exists>c\<in>set cs. \<exists>n. chunk_score lw qw c = Inr n \<and> 0 < n \<and> r = with_score n c"
proof (induction cs arbitrary: sc)
  case Nil
  then show ?case by simp
next
  case (Cons c cs)
  from Cons.prems obtain n sc' where n: "chunk_score lw qw c = Inr n"
    and sc': "score_chunks lw qw cs = Inr sc'"
    and sc: "sc = (if 0 < n then with_score n c # sc' else sc')"
    by (auto split: sum.splits)
  from Cons.IH [OF sc'] n sc show ?case by auto
qed

lemma score_chunks_by_score:
  "score_chunks lw qw cs = Inr sc \<Longrightarrow> 0 < s \<Longrightarrow>
   filter (\<lambda>r. relevance r = int s) sc =
     map (with_score s) (filter (\<lambda>c. chunk_score lw qw c = Inr s) cs)"
proof (induction cs arbitrary: sc)
  case Nil
  then show ?case by simp
next
  case (Cons c cs)
  from Cons.prems obtain n sc' where n: "chunk_score lw qw c = Inr n"
    and sc': "score_chunks lw qw cs = Inr sc'"
    and sc: "sc = (if 0 < n then with_score n c # sc' else sc')"
    by (auto split: sum.splits)
  from Cons.IH [OF sc' Cons.prems(2)] n sc Cons.prems(2) show ?case
    by (auto simp: relevance_with_score)
qed

lemma py_slice_take: "0 \<le> k \<Longrightarrow> py_slice xs None (Some k) = take (nat k) xs"
  by (cases "nat k \<le> length xs") (simp_all add: py_slice_def norm_index_def Let_def min_def)

lemma py_slice_prefix: "py_slice xs None (Some k) = take (norm_index k (length xs)) xs"
  by (simp add: py_slice_def Let_def)

lemma norm_index_nonneg: "0 \<le> k \<Longrightarrow> norm_index k n \<le> nat k"
  by (simp add: norm_index_def)

lemma set_py_slice: "set (py_slice xs lo hi) \<subseteq> set xs"
proof -
  have "set (take a (drop b xs)) \<subseteq> set xs" for a b
    using set_take_subset [of a "drop b xs"] set_drop_subset [of b xs] by blast
  then show ?thesis by (simp add: py_slice_def Let_def)
qed

lemma sorted_desc: "sorted_wrt (\<lambda>a b. relevance b \<le> relevance a) (sort_desc xs)"
proof -
  have "sorted (map (\<lambda>x. - relevance x) (sort_desc xs))"
    by (simp add: sort_desc_def)
  then show ?thesis
    by (simp add: sorted_wrt_map)
qed

lemma sort_desc_stable:
  "filter (\<lambda>r. relevance r = s) (sort_desc xs) = filter (\<lambda>r. relevance r = s) xs"
proof -
  have "filter (\<lambda>r. - relevance r = - s) (sort_key (\<lambda>x. - relevance x) xs) =
      filter (\<lambda>r. - relevance r = - s) xs"
    by (rule sort_key_stable)
  then show ?thesis by (simp add: sort_desc_def)
qed

lemma semantic_search_Inr:
  "semantic_search lw query chunks top_k = Inr rs \<Longrightarrow>
   \<exists>sc. score_chunks lw (query_words lw query) chunks = Inr sc \<and>
        rs = py_slice (sort_desc sc) None (Some top_k)"
  by (auto simp: semantic_search_def split: sum.splits)

lemma chunk_score_meaning:
  "chunk_score lw (query_words lw query) c = Inr n \<Longrightarrow>
   \<exists>t. chunk_text_lower lw c = Inr t \<and>
       n = card {w \<in> set (str_split (lw query)). \<exists>p s. t = p @ w @ s}"
  by (auto simp: chunk_score_def word_score_card contains_iff split: sum.splits)

text \<open>
  Claim C5, with the bound on the number of records for a non-negative \<open>top_k\<close>.  A search
  that returns gives at most \<open>top_k\<close> records when \<open>top_k\<close> is not negative.  For every
  \<open>top_k\<close>: each record is an input chunk with its score attached, and that score is
  positive, so a chunk of score 0 is never returned; the score of a chunk is the number of
  distinct whitespace-separated words of the lower-cased query that occur in the lower-cased
  chunk text; the records come in descending order of score; and the records of one score
  keep the order their chunks have in the corpus.
\<close>

theorem semantic_search_ranked:
  assumes "semantic_search lw query chunks top_k = Inr rs"
  shows "(0 \<le> top_k \<longrightarrow> int (length rs) \<le> top_k) \<and>
    (\<forall>r\<in>set rs. \<exists>c\<in>set chunks. \<exists>n. chunk_score lw (query_words lw query) c = Inr n \<and> 0 < n \<and>
        r = with_score n c \<and> relevance r = int n) \<and>
    (\<forall>c\<in>set chunks. \<forall>n. chunk_score lw (query_words lw query) c = Inr n \<longrightarrow>
        (\<exists>t. chunk_text_lower lw c = Inr t \<and>
           n = card {w \<in> set (str_split (lw query)). \<exists>p s. t = p @ w @ s})) \<and>
    sorted_wrt (\<lambda>a b. relevance b \<le> relevance a) rs \<and>
    (\<forall>s. 0 < s \<longrightarrow> (\<exists>m. filter (\<lambda>r. relevance r = int s) rs =
        take m (map (with_score s)
          (filter (\<lambda>c. chunk_score lw (query_words lw query) c = Inr s) chunks))))"
proof -
  from semantic_search_Inr [OF assms] obtain sc
    where sc: "score_chunks lw (query_words lw query) chunks = Inr sc"
      and "rs = py_slice (sort_desc sc) None (Some top_k)"
    by blast
  then obtain k where rs: "rs = take k (sort_desc sc)"
    and k: "k = norm_index top_k (length (sort_desc sc))"
    by (simp add: py_slice_prefix)
  have len: "0 \<le> top_k \<longrightarrow> int (length rs) \<le> top_k"
  proof
    assume nonneg: "0 \<le> top_k"
    then have "k \<le> nat top_k" unfolding k by (rule norm_index_nonneg)
    with nonneg show "int (length rs) \<le> top_k" by (simp add: rs)
  qed
  have "set rs \<subseteq> set sc"
    using set_take_subset [of k "sort_desc sc"] by (simp add: rs sort_desc_def)
  with score_chunks_members [OF sc]
  have mem: "\<forall>r\<in>set rs. \<exists>c\<in>set chunks. \<exists>n. chunk_score lw (query_words lw query) c = Inr n \<and>
        0 < n \<and> r = with_score n c \<and> relevance r = int n"
    by (metis relevance_with_score subsetD)
  have score: "\<forall>c\<in>set chunks. \<forall>n. chunk_score lw (query_words lw query) c = Inr n \<longrightarrow>
        (\<exists>t. chunk_text_lower lw c = Inr t \<and>
           n = card {w \<in> set (str_split (lw query)). \<exists>p s. t = p @ w @ s})"
    using chunk_score_meaning by blast
  have ord: "sorted_wrt (\<lambda>a b. relevance b \<le> relevance a) rs"
    unfolding rs using sorted_desc [of sc] by (rule sorted_wrt_take)
  have ties: "\<forall>s. 0 < s \<longrightarrow> (\<exists>m. filter (\<lambda>r. relevance r = int s) rs =
        take m (map (with_score s)
          (filter (\<lambda>c. chunk_score lw (query_words lw query) c = Inr s) chunks)))"
  proof (intro allI impI)
    fix s :: nat
    assume s: "0 < s"
    from filter_take_prefix [of "\<lambda>r. relevance r = int s" k "sort_desc sc"]
    obtain m where "filter (\<lambda>r. relevance r = int s) rs =
        take m (filter (\<lambda>r. relevance r = int s) (sort_desc sc))"
      unfolding rs by blast
    then have "filter (\<lambda>r. relevance r = int s) rs =
        take m (map (with_score s)
          (filter (\<lambda>c. chunk_score lw (query_words lw query) c = Inr s) chunks))"
      by (simp only: sort_desc_stable score_chunks_by_score [OF sc s])
    then show "\<exists>m. filter (\<lambda>r. relevance r = int s) rs =
        take m (map (with_score s)
          (filter (\<lambda>c. chunk_score lw (query_words lw query) c = Inr s) chunks))"
      by blast
  qed
  from len mem score ord ties show ?thesis
    by (intro conjI)
qed

lemmas search_defs = semantic_search_def query_words_def str_split_def lower_latin1_def lower_char_def
  is_space_def u_def chunk_score_def chunk_text_lower_def dict_get_def word_score_def
  with_score_def sort_desc_def relevance_def py_slice_def norm_index_def k_text_content_def
  k_relevance_score_def

theorem semantic_search_ranked_witness:
  "semantic_search lower_latin1 (u ''Net 30 net'')
     [[(k_text_content, PStr (u ''thirty''))], [(k_text_content, PStr (u ''net''))],
      [(k_text_content, PStr (u ''NET 30''))], [(k_text_content, PStr (u ''so 30''))]] 2 =
   Inr [[(k_text_content, PStr (u ''NET 30'')), (k_relevance_score, PInt 2)],
        [(k_text_content, PStr (u ''net'')), (k_relevance_score, PInt 1)]] \<and>
   (0::int) \<le> 2 \<and>
   int (length [[(k_text_content, PStr (u ''NET 30'')), (k_relevance_score, PInt 2)],
        [(k_text_content, PStr (u ''net'')), (k_relevance_score, PInt 1)]]) \<le> 2"
proof -
  have run: "semantic_search lower_latin1 (u ''Net 30 net'')
     [[(k_text_content, PStr (u ''thirty''))], [(k_text_content, PStr (u ''net''))],
      [(k_text_content, PStr (u ''NET 30''))], [(k_text_content, PStr (u ''so 30''))]] 2 =
   Inr [[(k_text_content, PStr (u ''NET 30'')), (k_relevance_score, PInt 2)],
        [(k_text_content, PStr (u ''net'')), (k_relevance_score, PInt 1)]]"
    by (simp add: search_defs)
  have nonneg: "(0::int) \<le> 2" by simp
  from semantic_search_ranked [OF run]
  have "(0::int) \<le> 2 \<longrightarrow>
      int (length [[(k_text_content, PStr (u ''NET 30'')), (k_relevance_score, PInt 2)],
        [(k_text_content, PStr (u ''net'')), (k_relevance_score, PInt 1)]]) \<le> 2"
    by (rule conjunct1)
  with nonneg
  have "int (length [[(k_text_content, PStr (u ''NET 30'')), (k_relevance_score, PInt 2)],
        [(k_text_content, PStr (u ''net'')), (k_relevance_score, PInt 1)]]) \<le> 2"
    by (rule rev_mp)
  with run nonneg show ?thesis by (intro conjI)
qed

text \<open>
  Claim C5 says that the search returns at most \<open>top_k\<close> records for every \<open>top_k\<close>.
  With a negative \<open>top_k\<close> the final slice drops records from the end instead: for
  \<open>top_k = -1\<close> and two matching chunks one record comes back, which is more than
  \<open>top_k\<close>.
\<close>

theorem semantic_search_negative_top_k:
  "semantic_search lower_latin1 (u ''a'')
     [[(k_text_content, PStr (u ''a''))], [(k_text_content, PStr (u ''a b''))]] (- 1) =
   Inr [[(k_text_content, PStr (u ''a'')), (k_relevance_score, PInt 1)]] \<and>
   \<not> int (length [[(k_text_content, PStr (u ''a'')), (k_relevance_score, PInt 1)]]) \<le> - 1"
  by (simp add: search_defs)

text \<open>
  Claim C10, as the code has it.  Every returned record is an input chunk updated at the key
  \<open>relevance_score\<close>: it holds the chunk's score there, agrees with the chunk on every
  other key, and has the chunk's keys and \<open>relevance_score\<close>.  Where the chunk has no such
  key, the record is the chunk followed by the one new pair.
\<close>

theorem semantic_search_frame:
  assumes "semantic_search lw query chunks top_k = Inr rs"
  shows "\<forall>r\<in>set rs. \<exists>c\<in>set chunks. \<exists>n.
      chunk_score lw (query_words lw query) c = Inr n \<and> r = with_score n c \<and>
      map_of r k_relevance_score = Some (PInt (int n)) \<and>
      (\<forall>key. key \<noteq> k_relevance_score \<longrightarrow> map_of r key = map_of c key) \<and>
      fst ` set r = insert k_relevance_score (fst ` set c) \<and>
      (k_relevance_score \<notin> fst ` set c \<longrightarrow> r = c @ [(k_relevance_score, PInt (int n))])"
proof
  fix r
  assume r: "r \<in> set rs"
  from semantic_search_Inr [OF assms] obtain sc
    where sc: "score_chunks lw (query_words lw query) chunks = Inr sc"
      and rs: "rs = py_slice (sort_desc sc) None (Some top_k)"
    by blast
  from r rs set_py_slice [of "sort_desc sc" None "Some top_k"] have "r \<in> set sc"
    by (auto simp: sort_desc_def)
  with score_chunks_members [OF sc] obtain c n
    where c: "c \<in> set chunks" and n: "chunk_score lw (query_words lw query) c = Inr n"
      and rc: "r = with_score n c"
    by blast
  have "map_of r k_relevance_score = Some (PInt (int n))"
    by (simp add: rc map_of_with_score)
  moreover have "\<forall>key. key \<noteq> k_relevance_score \<longrightarrow> map_of r key = map_of c key"
    by (simp add: rc map_of_with_score)
  moreover have "fst ` set r = insert k_relevance_score (fst ` set c)"
    by (simp add: rc with_score_def dom_update)
  moreover have "k_relevance_score \<notin> fst ` set c \<longrightarrow>
      r = c @ [(k_relevance_score, PInt (int n))]"
    by (simp add: rc with_score_def update_fresh)
  ultimately show "\<exists>c\<in>set chunks. \<exists>n.
      chunk_score lw (query_words lw query) c = Inr n \<and> r = with_score n c \<and>
      map_of r k_relevance_score = Some (PInt (int n)) \<and>
      (\<forall>key. key \<noteq> k_relevance_score \<longrightarrow> map_of r key = map_of c key) \<and>
      fst ` set r = insert k_relevance_score (fst ` set c) \<and>
      (k_relevance_score \<notin> fst ` set c \<longrightarrow> r = c @ [(k_relevance_score, PInt (int n))])"
    using c n rc by blast
qed

theorem semantic_search_frame_witness:
  "semantic_search lower_latin1 (u ''net'')
     [[(k_text_content, PStr (u ''net 30'')), (u ''page_number'', PInt 4)]] 5 =
   Inr [[(k_text_content, PStr (u ''net 30'')), (u ''page_number'', PInt 4),
         (k_relevance_score, PInt 1)]] \<and>
   (\<exists>n. map_of [(k_text_content, PStr (u ''net 30'')), (u ''page_number'', PInt 4),
         (k_relevance_score, PInt 1)] k_relevance_score = Some (PInt (int n)))"
proof -
  have run: "semantic_search lower_latin1 (u ''net'')
     [[(k_text_content, PStr (u ''net 30'')), (u ''page_number'', PInt 4)]] 5 =
   Inr [[(k_text_content, PStr (u ''net 30'')), (u ''page_number'', PInt 4),
         (k_relevance_score, PInt 1)]]"
    by (simp add: search_defs)
  have "[(k_text_content, PStr (u ''net 30'')), (u ''page_number'', PInt 4),
         (k_relevance_score, PInt 1)] \<in>
      set [[(k_text_content, PStr (u ''net 30'')), (u ''page_number'', PInt 4),
         (k_relevance_score, PInt 1)]]"
    by (rule list.set_intros)
  with semantic_search_frame [OF run]
  have "\<exists>n. map_of [(k_text_content, PStr (u ''net 30'')), (u ''page_number'', PInt 4),
         (k_relevance_score, PInt 1)] k_relevance_score = Some (PInt (int n))"
    by blast
  with run show ?thesis by (intro conjI)
qed

text \<open>
  Claim C10 says that no input field is modified and that exactly one key is added.
  A chunk that already has a \<open>relevance_score\<close> entry loses it: the record carries the
  new score under the same key and no key is added.
\<close>

theorem semantic_search_overwrites_score:
  "semantic_search lower_latin1 (u ''a'')
     [[(k_text_content, PStr (u ''a'')), (k_relevance_score, PInt 99)]] 5 =
   Inr [[(k_text_content, PStr (u ''a'')), (k_relevance_score, PInt 1)]] \<and>
   map_of [(k_text_content, PStr (u ''a'')), (k_relevance_score, PInt 99)] k_relevance_score =
     Some (PInt 99) \<and>
   map_of [(k_text_content, PStr (u ''a'')), (k_relevance_score, PInt 1)] k_relevance_score \<noteq>
     Some (PInt 99) \<and>
   map fst [(k_text_content, PStr (u ''a'')), (k_relevance_score, PInt 1)] =
     map fst [(k_text_content, PStr (u ''a'')), (k_relevance_score, PInt 99)]"
  by (simp add: search_defs)

section \<open>Evaluating patterns\<close>

lemmas re_defs = re_search_def re_search_adv_def finditer_def lit_def seqs_def alts_def chr_eq_def
  in_range_def sre_fold_def is_digit_def digit_value_def is_space_def u_def scan.simps
  rep_loop.simps finditer_from.simps




section \<open>Chunking\<close>

lemmas chunk_defs = chunk_end_def boundary_patterns_def py_slice_def norm_index_def strip_def







text \<open>
  Every chunk that a returning call emits is non-empty: the loop appends \<open>chunk\<close>, which is
  already stripped, only when it is not the empty string.
\<close>

lemma chunk_loop_nonempty:
  assumes "chunk_loop text cs co start chunks = Some r"
  shows "[] \<notin> set chunks \<longrightarrow> [] \<notin> set r"
proof (rule chunk_loop.raw_induct
    [where P = "\<lambda>t cs co start chunks r. [] \<notin> set chunks \<longrightarrow> [] \<notin> set r", OF _ assms])
  fix f :: "str \<Rightarrow> int \<Rightarrow> int \<Rightarrow> int \<Rightarrow> str list \<Rightarrow> str list option"
  fix t :: str and cs co start :: int and chunks r :: "str list"
  assume IH: "\<And>t cs co start chunks r. f t cs co start chunks = Some r \<Longrightarrow>
     [] \<notin> set chunks \<longrightarrow> [] \<notin> set r"
  assume step: "(if start < int (length t)
      then f t cs co (chunk_end t start cs - co)
            (if strip (py_slice t (Some start) (Some (chunk_end t start cs))) \<noteq> []
             then chunks @ [strip (py_slice t (Some start) (Some (chunk_end t start cs)))]
             else chunks)
      else Some chunks) = Some r"
  show "[] \<notin> set chunks \<longrightarrow> [] \<notin> set r"
  proof (cases "start < int (length t)")
    case False
    with step show ?thesis by simp
  next
    case True
    with step obtain ch where
      f: "f t cs co (chunk_end t start cs - co) ch = Some r" and
      ch: "ch = (if strip (py_slice t (Some start) (Some (chunk_end t start cs))) \<noteq> []
             then chunks @ [strip (py_slice t (Some start) (Some (chunk_end t start cs)))]
             else chunks)"
      by simp
    from ch have "[] \<notin> set chunks \<longrightarrow> [] \<notin> set ch" by (simp split: if_splits)
    with IH [OF f] show ?thesis by blast
  qed
qed

lemma chunk_text_nonempty: "chunk_text t cs co = Some r \<Longrightarrow> [] \<notin> set r"
  using chunk_loop_nonempty [of t cs co 0 "[]" r]
  by (auto simp add: chunk_text_def split: if_splits)

text \<open>
  With the text \<open>. aaaa\<close>, size 3 and overlap 2 the first chunk ends behind the full stop,
  at position 2, so that the next cursor is \<open>2 - 2 = 0\<close> again.
\<close>

lemma chunk_end_back: "chunk_end (u ''. aaaa'') 0 3 = 2"
  by (simp add: chunk_defs re_defs)

lemma chunk_loop_cycle:
  assumes "chunk_loop text cs co start chunks = Some r"
  shows "\<not> (text = u ''. aaaa'' \<and> cs = 3 \<and> co = 2 \<and> start = 0)"
proof (rule chunk_loop.raw_induct
    [where P = "\<lambda>t cs co start chunks r.
        \<not> (t = u ''. aaaa'' \<and> cs = 3 \<and> co = 2 \<and> start = 0)",
      OF _ assms])
  fix f :: "str \<Rightarrow> int \<Rightarrow> int \<Rightarrow> int \<Rightarrow> str list \<Rightarrow> str list option"
  fix t :: str and cs co start :: int and chunks r :: "str list"
  assume IH: "\<And>t cs co start chunks r. f t cs co start chunks = Some r \<Longrightarrow>
     \<not> (t = u ''. aaaa'' \<and> cs = 3 \<and> co = 2 \<and> start = 0)"
  assume step: "(if start < int (length t)
      then f t cs co (chunk_end t start cs - co)
            (if strip (py_slice t (Some start) (Some (chunk_end t start cs))) \<noteq> []
             then chunks @ [strip (py_slice t (Some start) (Some (chunk_end t start cs)))]
             else chunks)
      else Some chunks) = Some r"
  show "\<not> (t = u ''. aaaa'' \<and> cs = 3 \<and> co = 2 \<and> start = 0)"
  proof
    assume a: "t = u ''. aaaa'' \<and> cs = 3 \<and> co = 2 \<and> start = 0"
    have lt: "start < int (length t)" using a by (simp add: u_def)
    have nx: "chunk_end t start cs - co = 0" using a chunk_end_back by simp
    from step lt nx obtain ch where "f t cs co 0 ch = Some r" by (simp split: if_splits)
    from IH [OF this] a show False by simp
  qed
qed

text \<open>
  Claim C3 says that \<open>chunk_text\<close> returns for every text when \<open>0 < chunk_size\<close> and
  \<open>0 \<le> chunk_overlap < chunk_size\<close>.  The call on \<open>. aaaa\<close> with size 3 and overlap 2 does not
  return: the boundary search moves the end of the chunk backwards, from 3 to 2, and the cursor
  does not advance.
\<close>

theorem chunk_text_valid_config_loops:
  "(0::int) < 3 \<and> (0::int) \<le> 2 \<and> (2::int) < 3 \<and> chunk_text (u ''. aaaa'') 3 2 = None"
proof (cases "chunk_loop (u ''. aaaa'') 3 2 0 []")
  case None
  then show ?thesis by (simp add: chunk_text_def u_def)
next
  case (Some r)
  from chunk_loop_cycle [OF this] show ?thesis by simp
qed

section \<open>Running the patterns\<close>

text \<open>
  The equations of \<open>rmatch\<close> at a continuation and a position.  With them a search is
  evaluated from the left, and a pattern is unfolded only as far as the text matches it.
\<close>

lemma rmatch_app:
  "rmatch t ic ml Eps k i c = k i c"
  "rmatch t ic ml (Chr a) k i c = (if i < length t \<and> chr_eq ic a (t ! i) then k (Suc i) c else None)"
  "rmatch t ic ml Dot k i c = (if i < length t \<and> t ! i \<noteq> 10 then k (Suc i) c else None)"
  "rmatch t ic ml (Cls neg items) k i c =
     (if i < length t \<and> (list_ex (\<lambda>it. item_match ic it (t ! i)) items \<noteq> neg)
      then k (Suc i) c else None)"
  "rmatch t ic ml Eol k i c =
     (if i = length t \<or> (ml \<and> i < length t \<and> t ! i = 10) \<or> (Suc i = length t \<and> t ! i = 10)
      then k i c else None)"
  "rmatch t ic ml (Seq r1 r2) k i c = rmatch t ic ml r1 (rmatch t ic ml r2 k) i c"
  "rmatch t ic ml (Alt r1 r2) k i c =
     (case rmatch t ic ml r1 k i c of Some x \<Rightarrow> Some x | None \<Rightarrow> rmatch t ic ml r2 k i c)"
  "rmatch t ic ml (Rep mn mx greedy r) k i c =
     rep_loop (rmatch t ic ml r) greedy (Suc (mn + (length t - i))) mn mx k i c"
  "rmatch t ic ml (Grp r) k i c = rmatch t ic ml r (\<lambda>j c'. k j (Some (i, j))) i c"
  by simp_all

lemmas build_defs = lit_def seqs_def alts_def

lemmas pat_defs = unlimited_liability_re_def no_limit_re_def auto_renew_re_def may_modify_re_def
  reserves_right_re_def termination_notice_re_def indemnify_re_def hold_harmless_re_def
  as_is_re_def without_warranty_re_def no_warranties_re_def terminat_re_def governing_law_re_def
  auto_renewal_notice_re_def

lemmas ext_pat_defs = party_between_re_def party_entered_re_def party_label_re_def
  party_role_re_def date_numeric_re_def date_words_re_def date_label_re_def term_duration_re_def
  term_period_re_def term_label_re_def law_governed_re_def law_governing_re_def law_label_re_def
  cap_after_re_def cap_before_re_def currency_re_def renewal_notice_re_def auto_renew_re_def

lemmas run_defs = rmatch_app re_search_def re_search_adv_def finditer_def chr_eq_def
  in_range_def sre_fold_def is_digit_def digit_value_def is_space_def u_def scan.simps
  rep_loop.simps finditer_from.simps

section \<open>Audit\<close>

lemmas audit_defs = audit_document_def RISK_RULES_def check_findings_def getattr_check_def
  check_termination_clause_def check_auto_renewal_def check_governing_law_def
  check_termination_notice_def check_finding_def pattern_finding_def span_result_def
  renewal_window_def dict_truthy_def dict_get_def group1_def py_int_def digits_value_def
  py_slice_def norm_index_def strip_def risk_defs


lemma pattern_findings_bound: "length (pattern_findings t rule ps) \<le> length ps"
  by (induction ps) (simp_all split: list.splits)

text \<open>
  Claim C1 says that a rule gives at most one pattern finding in one audit.  The loop over
  the matches of a pattern ends at its first match, but the loop over the patterns of the rule
  goes on, so a rule gives one finding for each of its patterns that matches (lemma
  \<open>pattern_findings_bound\<close>).  In the text \<open>as is without warranty\<close> two patterns of the
  rule \<open>NO_WARRANTY\<close> match, and the audit returns two findings of that rule.
\<close>

theorem audit_two_findings_for_one_rule:
  "audit_document e (u ''as is without warranty'') None =
   Inr ([[(u ''finding_type'', PStr (u ''MISSING_TERMINATION'')), (u ''severity'', PStr (u ''high'')),
          (u ''description'', PStr (u ''Missing Termination Clause'')),
          (u ''evidence'', PStr (u ''No termination clause found in document'')),
          (u ''char_start'', PNone), (u ''char_end'', PNone)],
         [(u ''finding_type'', PStr (u ''MISSING_GOVERNING_LAW'')), (u ''severity'', PStr (u ''medium'')),
          (u ''description'', PStr (u ''Missing Governing Law'')),
          (u ''evidence'', PStr (u ''No governing law clause found'')),
          (u ''char_start'', PNone), (u ''char_end'', PNone)],
         [(u ''finding_type'', PStr (u ''NO_WARRANTY'')), (u ''severity'', PStr (u ''low'')),
          (u ''description'', PStr (u ''No Warranty Disclaimer'')),
          (u ''evidence'', PStr (u ''as is without warranty'')),
          (u ''char_start'', PInt 0), (u ''char_end'', PInt 5)],
         [(u ''finding_type'', PStr (u ''NO_WARRANTY'')), (u ''severity'', PStr (u ''low'')),
          (u ''description'', PStr (u ''No Warranty Disclaimer'')),
          (u ''evidence'', PStr (u ''as is without warranty'')),
          (u ''char_start'', PInt 6), (u ''char_end'', PInt 22)]], 55)"
  by (simp add: audit_defs pat_defs build_defs run_defs del: rmatch.simps)

text \<open>
  Claim C4 says that the audit has no \<open>AUTO_RENEWAL\<close> finding when the renewal phrase has a
  notice of 30 days or more near it.  The check \<open>check_auto_renewal\<close> returns nothing for
  the text \<open>automatically renew unless 60 days notice\<close>, but the rule also has the renewal
  phrase as a pattern, and the audit returns the finding of that pattern.
\<close>

theorem audit_auto_renewal_despite_notice:
  "audit_document e (u ''automatically renew unless 60 days notice'') None =
   Inr ([[(u ''finding_type'', PStr (u ''MISSING_TERMINATION'')), (u ''severity'', PStr (u ''high'')),
          (u ''description'', PStr (u ''Missing Termination Clause'')),
          (u ''evidence'', PStr (u ''No termination clause found in document'')),
          (u ''char_start'', PNone), (u ''char_end'', PNone)],
         [(u ''finding_type'', PStr (u ''AUTO_RENEWAL'')), (u ''severity'', PStr (u ''medium'')),
          (u ''description'', PStr (u ''Automatic Renewal Without Notice'')),
          (u ''evidence'', PStr (u ''automatically renew unless 60 days notice'')),
          (u ''char_start'', PInt 0), (u ''char_end'', PInt 19)],
         [(u ''finding_type'', PStr (u ''MISSING_GOVERNING_LAW'')), (u ''severity'', PStr (u ''medium'')),
          (u ''description'', PStr (u ''Missing Governing Law'')),
          (u ''evidence'', PStr (u ''No governing law clause found'')),
          (u ''char_start'', PNone), (u ''char_end'', PNone)]], 60) \<and>
   check_auto_renewal e (u ''automatically renew unless 60 days notice'') None = Inr None"
  by (simp add: audit_defs pat_defs build_defs run_defs del: rmatch.simps)






section \<open>Matches set group 1\<close>

lemma passesD:
  "passes q step \<Longrightarrow> step k i c = Some x \<Longrightarrow>
   \<exists>j c'. k j c' = Some x \<and> (c \<noteq> None \<longrightarrow> c' \<noteq> None) \<and> (q \<longrightarrow> c' \<noteq> None)"
  unfolding passes_def by blast

lemma rep_loop_Suc:
  "rep_loop step greedy (Suc fuel) mn mx k i c =
     (if 0 < mn then
        step (\<lambda>j c'. rep_loop step greedy fuel (mn - 1) (map_option (\<lambda>n. n - 1) mx) k j c') i c
      else if mx = Some 0 then k i c
      else if greedy then
        (case step (\<lambda>j c'. if i < j
                     then rep_loop step greedy fuel 0 (map_option (\<lambda>n. n - 1) mx) k j c'
                     else None) i c of
           Some x \<Rightarrow> Some x
         | None \<Rightarrow> k i c)
      else
        (case k i c of
           Some x \<Rightarrow> Some x
         | None \<Rightarrow>
             step (\<lambda>j c'. if i < j
                     then rep_loop step greedy fuel 0 (map_option (\<lambda>n. n - 1) mx) k j c'
                     else None) i c))"
  by (subst rep_loop.simps) (simp cong: if_cong option.case_cong)

lemma rep_loop_passes:
  assumes step: "passes q step"
  shows "rep_loop step greedy fuel mn mx k i c = Some x \<Longrightarrow>
     \<exists>j c'. k j c' = Some x \<and> (c \<noteq> None \<longrightarrow> c' \<noteq> None) \<and> (0 < mn \<and> q \<longrightarrow> c' \<noteq> None)"
proof (induction fuel arbitrary: mn mx i c)
  case 0
  then show ?case by (auto simp add: rep_loop.simps split: if_splits)
next
  case (Suc fuel)
  show ?case
  proof (cases "0 < mn")
    case True
    with Suc.prems have "step (\<lambda>j c'. rep_loop step greedy fuel (mn - 1)
        (map_option (\<lambda>n. n - 1) mx) k j c') i c = Some x"
      by (simp add: rep_loop_Suc)
    from passesD [OF step this] obtain j c1 where
      r: "rep_loop step greedy fuel (mn - 1) (map_option (\<lambda>n. n - 1) mx) k j c1 = Some x"
      and m: "c \<noteq> None \<longrightarrow> c1 \<noteq> None" and q: "q \<longrightarrow> c1 \<noteq> None"
      by blast
    from Suc.IH [OF r] obtain j' c2 where "k j' c2 = Some x" and "c1 \<noteq> None \<longrightarrow> c2 \<noteq> None"
      by blast
    with m q show ?thesis by blast
  next
    case False
    then have mn: "mn = 0" by simp
    let ?next = "\<lambda>j c'. if i < j
        then rep_loop step greedy fuel 0 (map_option (\<lambda>n. n - 1) mx) k j c' else None"
    from Suc.prems mn have "k i c = Some x \<or> step ?next i c = Some x"
      by (auto simp add: rep_loop_Suc split: if_splits option.splits)
    then show ?thesis
    proof
      assume "k i c = Some x"
      with mn show ?thesis by blast
    next
      assume "step ?next i c = Some x"
      from passesD [OF step this] obtain j c1 where
        r: "?next j c1 = Some x" and m: "c \<noteq> None \<longrightarrow> c1 \<noteq> None"
        by blast
      then have "rep_loop step greedy fuel 0 (map_option (\<lambda>n. n - 1) mx) k j c1 = Some x"
        by (simp split: if_splits)
      from Suc.IH [OF this] obtain j' c2 where "k j' c2 = Some x"
        and "c1 \<noteq> None \<longrightarrow> c2 \<noteq> None"
        by blast
      with m mn show ?thesis by blast
    qed
  qed
qed

lemma rmatch_passes: "passes (caps r) (rmatch t ic ml r :: 'a cont \<Rightarrow> 'a cont)"
proof (induction r)
  case Eps
  show ?case by (auto simp add: passes_def)
next
  case (Chr a)
  show ?case by (auto simp add: passes_def split: if_splits)
next
  case Dot
  show ?case by (auto simp add: passes_def split: if_splits)
next
  case (Cls neg items)
  show ?case by (auto simp add: passes_def split: if_splits)
next
  case Eol
  show ?case by (auto simp add: passes_def split: if_splits)
next
  case (Seq r1 r2)
  show ?case
    unfolding passes_def
  proof (intro allI impI)
    fix k :: "'a cont" and i c x
    assume "rmatch t ic ml (Seq r1 r2) k i c = Some x"
    then have "rmatch t ic ml r1 (rmatch t ic ml r2 k) i c = Some x" by simp
    from passesD [OF Seq.IH(1) this] obtain j c1 where
      a: "rmatch t ic ml r2 k j c1 = Some x" and m1: "c \<noteq> None \<longrightarrow> c1 \<noteq> None"
      and q1: "caps r1 \<longrightarrow> c1 \<noteq> None"
      by blast
    from passesD [OF Seq.IH(2) a] obtain j' c2 where
      "k j' c2 = Some x" and "c1 \<noteq> None \<longrightarrow> c2 \<noteq> None" and "caps r2 \<longrightarrow> c2 \<noteq> None"
      by blast
    with m1 q1 show "\<exists>j c'. k j c' = Some x \<and> (c \<noteq> None \<longrightarrow> c' \<noteq> None) \<and>
        (caps (Seq r1 r2) \<longrightarrow> c' \<noteq> None)"
      by (simp only: caps.simps) blast
  qed
next
  case (Alt r1 r2)
  show ?case
    unfolding passes_def
  proof (intro allI impI)
    fix k :: "'a cont" and i c x
    assume "rmatch t ic ml (Alt r1 r2) k i c = Some x"
    then have "rmatch t ic ml r1 k i c = Some x \<or> rmatch t ic ml r2 k i c = Some x"
      by (auto split: option.splits)
    then show "\<exists>j c'. k j c' = Some x \<and> (c \<noteq> None \<longrightarrow> c' \<noteq> None) \<and>
        (caps (Alt r1 r2) \<longrightarrow> c' \<noteq> None)"
    proof
      assume "rmatch t ic ml r1 k i c = Some x"
      from passesD [OF Alt.IH(1) this] show ?thesis by (simp only: caps.simps) blast
    next
      assume "rmatch t ic ml r2 k i c = Some x"
      from passesD [OF Alt.IH(2) this] show ?thesis by (simp only: caps.simps) blast
    qed
  qed
next
  case (Rep mn mx greedy r)
  show ?case
    unfolding passes_def
  proof (intro allI impI)
    fix k :: "'a cont" and i c x
    assume "rmatch t ic ml (Rep mn mx greedy r) k i c = Some x"
    then have "rep_loop (rmatch t ic ml r) greedy (Suc (mn + (length t - i))) mn mx k i c = Some x"
      by simp
    from rep_loop_passes [OF Rep.IH this]
    show "\<exists>j c'. k j c' = Some x \<and> (c \<noteq> None \<longrightarrow> c' \<noteq> None) \<and>
        (caps (Rep mn mx greedy r) \<longrightarrow> c' \<noteq> None)"
      by (simp only: caps.simps)
  qed
next
  case (Grp r)
  show ?case
    unfolding passes_def
  proof (intro allI impI)
    fix k :: "'a cont" and i c x
    assume "rmatch t ic ml (Grp r) k i c = Some x"
    then have "rmatch t ic ml r (\<lambda>j c'. k j (Some (i, j))) i c = Some x" by simp
    from passesD [OF Grp.IH this] obtain j c1 where "k j (Some (i, j)) = Some x" by blast
    then show "\<exists>j c'. k j c' = Some x \<and> (c \<noteq> None \<longrightarrow> c' \<noteq> None) \<and>
        (caps (Grp r) \<longrightarrow> c' \<noteq> None)"
      by blast
  qed
qed

lemma scan_Some: "scan f i cnt = Some x \<Longrightarrow> \<exists>j. f j = Some x"
proof (induction cnt arbitrary: i)
  case 0
  then show ?case by (simp add: scan.simps)
next
  case (Suc cnt)
  then show ?case by (auto simp add: scan.simps [of f i "Suc cnt"] split: option.splits)
qed

lemma re_search_adv_group:
  assumes "re_search_adv t ic ml r pos adv = Some (s, e, c)" and "caps r"
  shows "c \<noteq> None"
proof -
  from assms(1) scan_Some obtain i where
    "rmatch t ic ml r (\<lambda>j c. if adv \<and> i = pos \<and> j = i then None else Some (i, j, c)) i None =
       Some (s, e, c)"
    unfolding re_search_adv_def by fast
  from passesD [OF rmatch_passes this] assms(2) obtain j c' where
    "(if adv \<and> i = pos \<and> j = i then None else Some (i, j, c')) = Some (s, e, c)" and "c' \<noteq> None"
    by blast
  then show ?thesis by (auto split: if_splits)
qed

lemma re_search_group: "re_search t ic ml r = Some (s, e, c) \<Longrightarrow> caps r \<Longrightarrow> c \<noteq> None"
  unfolding re_search_def by (rule re_search_adv_group)

section \<open>Field extraction\<close>

lemma caps_patterns:
  "\<forall>p\<in>set term_patterns. caps p"
  "\<forall>p\<in>set law_patterns. caps p"
  "\<forall>p\<in>set cap_patterns. caps p"
  by (simp_all add: term_patterns_def law_patterns_def cap_patterns_def ext_pat_defs build_defs)

lemma search_first_group:
  "search_first t ps = Some (s, e, c) \<Longrightarrow> \<forall>p\<in>set ps. caps p \<Longrightarrow> c \<noteq> None"
proof (induction ps)
  case Nil
  then show ?case by simp
next
  case (Cons p ps)
  show ?case
  proof (cases "re_search t True False p")
    case None
    with Cons show ?thesis by simp
  next
    case (Some m)
    with Cons.prems(1) have "re_search t True False p = Some (s, e, c)" by simp
    moreover from Cons.prems(2) have "caps p" by simp
    ultimately show ?thesis by (rule re_search_group)
  qed
qed

lemma extract_term_Inr: "\<exists>v. extract_term t = Inr v"
proof (cases "search_first (py_slice t None (Some 3000)) term_patterns")
  case None
  then show ?thesis by (simp add: extract_term_def)
next
  case (Some m)
  obtain s e c where m: "m = (s, e, c)" by (cases m)
  with Some search_first_group caps_patterns(1) have "c \<noteq> None" by blast
  with Some m show ?thesis
    by (auto simp add: extract_term_def group1_strip_def group1_def)
qed

lemma extract_governing_law_Inr: "\<exists>v. extract_governing_law t = Inr v"
proof (cases "search_first t law_patterns")
  case None
  then show ?thesis by (simp add: extract_governing_law_def)
next
  case (Some m)
  obtain s e c where m: "m = (s, e, c)" by (cases m)
  with Some search_first_group caps_patterns(2) have "c \<noteq> None" by blast
  with Some m show ?thesis
    by (auto simp add: extract_governing_law_def group1_strip_def group1_def)
qed

lemma cap_search_Inr:
  assumes "\<And>s err. to_float s = Inl err \<Longrightarrow> err = ValueError"
  shows "\<forall>p\<in>set ps. caps p \<Longrightarrow> \<exists>v. cap_search to_float t ps = Inr v"
proof (induction ps)
  case Nil
  show ?case by simp
next
  case (Cons p ps)
  then have IH: "\<exists>v. cap_search to_float t ps = Inr v" and p: "caps p" by simp_all
  show ?case
  proof (cases "re_search t True False p")
    case None
    with IH show ?thesis by simp
  next
    case (Some m)
    obtain s e c where m: "m = (s, e, c)" by (cases m)
    with Some p re_search_group have "c \<noteq> None" by blast
    then obtain g where g: "group1 t c = Some g" by (auto simp add: group1_def)
    show ?thesis
    proof (cases "to_float (filter (\<lambda>ch. ch \<noteq> 44) g)")
      case (Inl err)
      with assms have "err = ValueError" by blast
      with Inl Some m g IH show ?thesis by simp
    next
      case (Inr amount)
      with Some m g show ?thesis by simp
    qed
  qed
qed

lemma py_float_errors: "py_float s = Inl err \<Longrightarrow> err = ValueError"
  by (auto simp add: py_float_def Let_def split: if_splits pyval.splits)

lemma cap_search_skip:
  "re_search t True False p = Some (s, e, c) \<Longrightarrow> group1 t c = Some g \<Longrightarrow>
   to_float (filter (\<lambda>ch. ch \<noteq> 44) g) = Inl ValueError \<Longrightarrow>
   cap_search to_float t (p # ps) = cap_search to_float t ps"
  by simp

lemma search_first_None: "search_first t ps = None \<Longrightarrow> \<forall>p\<in>set ps. re_search t True False p = None"
  by (induction ps) (auto split: option.splits)

lemma cap_search_default:
  "search_first t ps = None \<Longrightarrow> cap_search to_float t ps = Inr []"
  by (induction ps) (auto split: option.splits)

lemma collect_parties_default:
  "\<forall>p\<in>set ps. finditer t True True p = [] \<Longrightarrow> collect_parties t ps = []"
  by (induction ps) (simp_all add: findall1_def)


text \<open>
  Claim C8.  No extractor raises: \<open>extract_parties\<close>, \<open>extract_dates\<close> and
  \<open>extract_auto_renewal\<close> have no operation that can fail, and \<open>extract_term\<close>,
  \<open>extract_governing_law\<close> and \<open>extract_liability_cap\<close> return a value for every text,
  because group 1 takes part in every match of their patterns and reading the amount fails
  with \<open>ValueError\<close> only.  A field none of whose patterns matches has its default: no
  parties, \<open>None\<close> for the date, the term and the governing law, the empty record for the
  liability cap, \<open>No\<close> for the renewal.  In the loop of the liability cap, an amount that
  cannot be read sends the loop on to the next pattern, whatever function reads the amount.
  The parties are stated for every listing \<open>list_of_set\<close> of a set that lists its elements.
\<close>

theorem extractors_never_raise:
  assumes "\<And>xs. set (list_of_set xs) = set xs"
  shows "(\<exists>v. extract_term t = Inr v) \<and> (\<exists>v. extract_governing_law t = Inr v) \<and>
    (\<exists>v. extract_liability_cap t = Inr v) \<and>
    ((\<forall>p\<in>set party_patterns. finditer (py_slice t None (Some 2000)) True True p = []) \<longrightarrow>
       extract_parties list_of_set t = []) \<and>
    (search_first (py_slice t None (Some 2000)) date_patterns = None \<longrightarrow> extract_dates t = None) \<and>
    (search_first (py_slice t None (Some 3000)) term_patterns = None \<longrightarrow>
       extract_term t = Inr None) \<and>
    (search_first t law_patterns = None \<longrightarrow> extract_governing_law t = Inr None) \<and>
    (search_first t cap_patterns = None \<longrightarrow> extract_liability_cap t = Inr []) \<and>
    (re_search t True False auto_renew_re = None \<longrightarrow> extract_auto_renewal t = u ''No'') \<and>
    (re_search t True False p = Some (s, e, c) \<and> group1 t c = Some g \<and>
     to_float (filter (\<lambda>ch. ch \<noteq> 44) g) = Inl ValueError \<longrightarrow>
       cap_search to_float t (p # ps) = cap_search to_float t ps)"
proof -
  have tm: "\<exists>v. extract_term t = Inr v" by (rule extract_term_Inr)
  have law: "\<exists>v. extract_governing_law t = Inr v" by (rule extract_governing_law_Inr)
  have cap: "\<exists>v. extract_liability_cap t = Inr v"
    unfolding extract_liability_cap_def
    using py_float_errors caps_patterns(3) by (rule cap_search_Inr)
  have "list_of_set [] = []" using assms [of "[]"] by simp
  then have parties:
    "(\<forall>p\<in>set party_patterns. finditer (py_slice t None (Some 2000)) True True p = []) \<longrightarrow>
       extract_parties list_of_set t = []"
    by (simp add: extract_parties_def collect_parties_default py_slice_def norm_index_def)
  have dates: "search_first (py_slice t None (Some 2000)) date_patterns = None \<longrightarrow>
      extract_dates t = None"
    by (simp add: extract_dates_def)
  have term0: "search_first (py_slice t None (Some 3000)) term_patterns = None \<longrightarrow>
      extract_term t = Inr None"
    by (simp add: extract_term_def)
  have law0: "search_first t law_patterns = None \<longrightarrow> extract_governing_law t = Inr None"
    by (simp add: extract_governing_law_def)
  have cap0: "search_first t cap_patterns = None \<longrightarrow> extract_liability_cap t = Inr []"
    by (simp add: extract_liability_cap_def cap_search_default)
  have renew: "re_search t True False auto_renew_re = None \<longrightarrow> extract_auto_renewal t = u ''No''"
    by (simp add: extract_auto_renewal_def)
  have skip: "re_search t True False p = Some (s, e, c) \<and> group1 t c = Some g \<and>
     to_float (filter (\<lambda>ch. ch \<noteq> 44) g) = Inl ValueError \<longrightarrow>
       cap_search to_float t (p # ps) = cap_search to_float t ps"
    using cap_search_skip by blast
  from tm law cap parties dates term0 law0 cap0 renew skip show ?thesis
    by (intro conjI)
qed

lemma empty_searches:
  "\<forall>p\<in>set party_patterns. finditer (py_slice [] None (Some 2000)) True True p = []"
  "search_first (py_slice [] None (Some 2000)) date_patterns = None"
  "search_first (py_slice [] None (Some 3000)) term_patterns = None"
  "search_first [] law_patterns = None"
  "search_first [] cap_patterns = None"
  "re_search [] True False auto_renew_re = None"
  by (simp_all add: party_patterns_def date_patterns_def term_patterns_def law_patterns_def
      cap_patterns_def ext_pat_defs build_defs run_defs py_slice_def norm_index_def
      del: rmatch.simps)

lemma failed_parse_example:
  "re_search (u ''$5 liability'') True False cap_before_re = Some (0, 12, Some (1, 2))"
  "group1 (u ''$5 liability'') (Some (1, 2)) = Some (u ''5'')"
  by (simp_all add: ext_pat_defs build_defs run_defs group1_def del: rmatch.simps)

theorem extractors_never_raise_witness:
  "extract_parties remdups [] = [] \<and> extract_dates [] = None \<and> extract_term [] = Inr None \<and>
   extract_governing_law [] = Inr None \<and> extract_liability_cap [] = Inr [] \<and>
   extract_auto_renewal [] = u ''No'' \<and>
   re_search (u ''$5 liability'') True False cap_before_re = Some (0, 12, Some (1, 2)) \<and>
   group1 (u ''$5 liability'') (Some (1, 2)) = Some (u ''5'') \<and>
   cap_search (\<lambda>s. Inl ValueError) (u ''$5 liability'') [cap_before_re] = Inr []"
proof -
  have order: "\<And>xs :: str list. set (remdups xs) = set xs" by simp
  note empty = extractors_never_raise
    [of remdups "[]" cap_before_re 0 0 None "[]" "\<lambda>s. Inl ValueError" "[]", OF order]
  note money = extractors_never_raise
    [of remdups "u ''$5 liability''" cap_before_re 0 12 "Some (1, 2)" "u ''5''"
      "\<lambda>s. Inl ValueError" "[]", OF order]
  from empty empty_searches have
    "extract_parties remdups [] = []" "extract_dates [] = None" "extract_term [] = Inr None"
    "extract_governing_law [] = Inr None" "extract_liability_cap [] = Inr []"
    "extract_auto_renewal [] = u ''No''"
    by blast+
  moreover from money failed_parse_example have
    "cap_search (\<lambda>s. Inl ValueError) (u ''$5 liability'') [cap_before_re] =
       cap_search (\<lambda>s. Inl ValueError) (u ''$5 liability'') []"
    by blast
  then have "cap_search (\<lambda>s. Inl ValueError) (u ''$5 liability'') [cap_before_re] = Inr []"
    by (simp only: cap_search.simps)
  ultimately show ?thesis using failed_parse_example by (intro conjI)
qed



end
